theory Spec2Isabelle
  imports Main "HOL-Library.Word"
begin

section \<open>Status codes\<close>

text \<open>
  The codes of \<^verbatim>\<open>Status\<close> that the two source files produce or test
  (\<open>MemLimitExceeded\<close> is what \<^verbatim>\<open>TRY_CATCH_BAD_ALLOC\<close> returns), and
  \<open>IOError\<close> for any other failure of the file system. The message text of a status is
  not modelled: no branch of the code reads it.
\<close>

datatype Status =
  OK | NotFound | Corruption | InvalidArgument | InternalError | NotSupported
  | EndOfFile | Aborted | Cancelled | MemLimitExceeded | IOError

definition ok :: "Status \<Rightarrow> bool" where
  "ok st = (st = OK)"

definition is_not_found :: "Status \<Rightarrow> bool" where
  "is_not_found st = (st = NotFound)"

definition is_end_of_file :: "Status \<Rightarrow> bool" where
  "is_end_of_file st = (st = EndOfFile)"

section \<open>Connector scan node: priority aging\<close>

text \<open>
  \<^verbatim>\<open>static int compute_priority(int32_t num_submitted_tasks)\<close> of
  \<^verbatim>\<open>connector_scan_node.cpp\<close>: a chain of twenty comparisons, taken in the order
  of the source. The argument is the mathematical value of the \<^verbatim>\<open>int32_t\<close>; the
  function does no arithmetic on it.
\<close>

definition compute_priority :: "int \<Rightarrow> int" where
  "compute_priority num_submitted_tasks =
    (if num_submitted_tasks < 5 then 20
     else if num_submitted_tasks < 19 then 19
     else if num_submitted_tasks < 49 then 18
     else if num_submitted_tasks < 91 then 17
     else if num_submitted_tasks < 145 then 16
     else if num_submitted_tasks < 211 then 15
     else if num_submitted_tasks < 289 then 14
     else if num_submitted_tasks < 379 then 13
     else if num_submitted_tasks < 481 then 12
     else if num_submitted_tasks < 595 then 11
     else if num_submitted_tasks < 721 then 10
     else if num_submitted_tasks < 859 then 9
     else if num_submitted_tasks < 1009 then 8
     else if num_submitted_tasks < 1171 then 7
     else if num_submitted_tasks < 1345 then 6
     else if num_submitted_tasks < 1531 then 5
     else if num_submitted_tasks < 1729 then 4
     else if num_submitted_tasks < 1939 then 3
     else if num_submitted_tasks < 2161 then 2
     else if num_submitted_tasks < 2395 then 1
     else 0)"

text \<open>The thresholds listed in the specification, in increasing order.\<close>

definition priority_thresholds :: "int list" where
  "priority_thresholds =
    [5, 19, 49, 91, 145, 211, 289, 379, 481, 595, 721, 859, 1009, 1171, 1345, 1531,
     1729, 1939, 2161, 2395]"

section \<open>Connector scan node: scanners and the pending token\<close>

text \<open>
  The data source behind a scanner is an external collaborator. The model keeps what the
  scanner observes of it: the status that each call of \<^verbatim>\<open>open\<close> returns (the answer
  to the \<open>k\<close>-th call, counted from 0) and the number of calls made so far.
\<close>

record DataSource =
  open_answers :: "nat \<Rightarrow> Status"
  open_calls :: nat

definition DataSource_open :: "DataSource \<Rightarrow> Status \<times> DataSource" where
  "DataSource_open ds = (open_answers ds (open_calls ds), ds\<lparr>open_calls := Suc (open_calls ds)\<rparr>)"

text \<open>\<^verbatim>\<open>class ConnectorScanner\<close>: its flags, with the initial values of the member initialisers.\<close>

record ConnectorScanner =
  data_source :: DataSource
  is_open :: bool
  keep_priority :: bool
  pending_token :: bool

definition new_ConnectorScanner :: "DataSource \<Rightarrow> ConnectorScanner" where
  "new_ConnectorScanner ds =
    \<lparr>data_source = ds, is_open = False, keep_priority = False, pending_token = False\<rparr>"

text \<open>\<^verbatim>\<open>ConnectorScanner::open\<close>: \<^verbatim>\<open>RETURN_IF_ERROR\<close> leaves before \<^verbatim>\<open>_is_open\<close> is set.\<close>

definition ConnectorScanner_open :: "ConnectorScanner \<Rightarrow> Status \<times> ConnectorScanner" where
  "ConnectorScanner_open sc =
    (if is_open sc then (OK, sc)
     else
       let (st, ds) = DataSource_open (data_source sc)
       in if \<not> ok st then (st, sc\<lparr>data_source := ds\<rparr>)
          else (OK, sc\<lparr>data_source := ds, is_open := True\<rparr>))"

text \<open>
  \<^verbatim>\<open>std::atomic_bool::compare_exchange_strong(expected, desired)\<close> on an object holding
  \<open>obj\<close>: the result and the new content. \<^verbatim>\<open>atomic_cas\<close> returns the result and the
  contents of \<^verbatim>\<open>*lvalue\<close> and \<^verbatim>\<open>*rvalue\<close>.
\<close>

definition compare_exchange_strong :: "bool \<Rightarrow> bool \<Rightarrow> bool \<Rightarrow> bool \<times> bool" where
  "compare_exchange_strong obj expected desired =
    (if obj = expected then (True, desired) else (False, obj))"

definition atomic_cas :: "bool \<Rightarrow> bool \<Rightarrow> bool \<Rightarrow> bool \<times> bool \<times> bool" where
  "atomic_cas lvalue rvalue expect =
    (let (res, lvalue1) = compare_exchange_strong lvalue expect rvalue
     in (res, lvalue1, if res then expect else rvalue))"

text \<open>
  \<^verbatim>\<open>acquire_pending_token(token)\<close> and \<^verbatim>\<open>release_pending_token(token)\<close>: the
  result, the scanner and the content of \<^verbatim>\<open>*token\<close> afterwards.
\<close>

definition acquire_pending_token :: "ConnectorScanner \<Rightarrow> bool \<Rightarrow> bool \<times> ConnectorScanner \<times> bool" where
  "acquire_pending_token sc token =
    (let (res, token1, mine) = atomic_cas token (pending_token sc) True
     in (res, sc\<lparr>pending_token := mine\<rparr>, token1))"

definition release_pending_token :: "ConnectorScanner \<Rightarrow> bool \<Rightarrow> bool \<times> ConnectorScanner \<times> bool" where
  "release_pending_token sc token =
    (if pending_token sc then (True, sc\<lparr>pending_token := False\<rparr>, True)
     else (False, sc, token))"

definition has_pending_token :: "ConnectorScanner \<Rightarrow> bool" where
  "has_pending_token sc = pending_token sc"

section \<open>Connector scan node: the node\<close>

text \<open>
  The thread pool is an external collaborator with a non-blocking \<^verbatim>\<open>try_offer\<close> and a
  blocking \<^verbatim>\<open>offer\<close>. The model keeps the tasks it has accepted, and the answer it
  gives to each call of \<^verbatim>\<open>try_offer\<close> (\<open>False\<close> when it is busy). A task names its
  scanner by the position of the scanner in the node's object pool.
\<close>

record Task =
  task_scanner :: nat
  priority :: int

record PriorityThreadPool =
  accepted :: "Task list"
  try_offer_answers :: "nat \<Rightarrow> bool"
  try_offer_calls :: nat

definition try_offer :: "Task \<Rightarrow> PriorityThreadPool \<Rightarrow> bool \<times> PriorityThreadPool" where
  "try_offer t pool =
    (let answer = try_offer_answers pool (try_offer_calls pool);
         pool1 = pool\<lparr>try_offer_calls := Suc (try_offer_calls pool)\<rparr>
     in if answer then (True, pool1\<lparr>accepted := accepted pool1 @ [t]\<rparr>) else (False, pool1))"

definition offer :: "Task \<Rightarrow> PriorityThreadPool \<Rightarrow> PriorityThreadPool" where
  "offer t pool = pool\<lparr>accepted := accepted pool @ [t]\<rparr>"

text \<open>
  The members of \<^verbatim>\<open>ConnectorScanNode\<close> that the modelled functions read or write. The
  two counters are \<^verbatim>\<open>std::atomic<int32_t>\<close>; \<open>scanners\<close> is the object pool, a scanner
  pointer is a position in it. \<open>limit\<close> is \<open>-1\<close> when the node has no limit.
\<close>

record ConnectorScanNode =
  status :: Status
  start :: bool
  limit :: int
  num_rows_returned :: int
  result_chunks_shutdown :: bool
  scanner_submit_count :: "32 word"
  running_threads :: "32 word"
  thread_pool :: PriorityThreadPool
  pending_token_slot :: bool
  scanners :: "ConnectorScanner list"

text \<open>The atomic operations of \<^verbatim>\<open>_submit_scanner\<close>, in the order in which it runs them.\<close>

datatype Event =
  SubmitCountFetchAdd "32 word"
  | RunningThreadsFetchAdd
  | TryOffer Task bool
  | Offer Task
  | RunningThreadsFetchSub
  | SubmitCountFetchSub "32 word"

text \<open>
  \<^verbatim>\<open>ConnectorScanNode::_submit_scanner(scanner, blockable)\<close>: the result, the node
  afterwards, and the operations it ran. \<^verbatim>\<open>fetch_add\<close> returns the value before the
  addition; the counters wrap around as 32-bit atomics do.
\<close>

definition submit_scanner ::
  "ConnectorScanNode \<Rightarrow> nat \<Rightarrow> bool \<Rightarrow> bool \<times> ConnectorScanNode \<times> Event list" where
  "submit_scanner node scanner blockable =
    (let delta = (if keep_priority (scanners node ! scanner) then 0 else 1);
         num_submit = scanner_submit_count node;
         node1 = node\<lparr>scanner_submit_count := scanner_submit_count node + delta\<rparr>;
         task = \<lparr>task_scanner = scanner, priority = compute_priority (sint num_submit)\<rparr>;
         node2 = node1\<lparr>running_threads := running_threads node1 + 1\<rparr>;
         (offered, pool1) = try_offer task (thread_pool node2);
         node3 = node2\<lparr>thread_pool := pool1\<rparr>;
         events = [SubmitCountFetchAdd delta, RunningThreadsFetchAdd, TryOffer task offered]
     in if offered then (True, node3, events)
        else if blockable then
          (True, node3\<lparr>thread_pool := offer task (thread_pool node3)\<rparr>, events @ [Offer task])
        else
          (False,
           node3\<lparr>running_threads := running_threads node3 - 1,
                 scanner_submit_count := scanner_submit_count node3 - delta\<rparr>,
           events @ [RunningThreadsFetchSub, SubmitCountFetchSub delta]))"

text \<open>
  The token operations as steps of the node: any scanner of the pool may run
  \<^verbatim>\<open>acquire_pending_token(&_pending_token)\<close> or
  \<^verbatim>\<open>release_pending_token(&_pending_token)\<close> against the slot of the node. A node starts
  with no scanner holding the token.
\<close>

inductive token_step :: "ConnectorScanNode \<Rightarrow> ConnectorScanNode \<Rightarrow> bool" where
  acquire:
    "i < length (scanners node) \<Longrightarrow>
     acquire_pending_token (scanners node ! i) (pending_token_slot node) = (res, sc, token) \<Longrightarrow>
     token_step node (node\<lparr>scanners := (scanners node)[i := sc], pending_token_slot := token\<rparr>)"
| release:
    "i < length (scanners node) \<Longrightarrow>
     release_pending_token (scanners node ! i) (pending_token_slot node) = (res, sc, token) \<Longrightarrow>
     token_step node (node\<lparr>scanners := (scanners node)[i := sc], pending_token_slot := token\<rparr>)"

inductive reachable :: "ConnectorScanNode \<Rightarrow> bool" where
  initial: "list_all (\<lambda>sc. \<not> pending_token sc) (scanners node) \<Longrightarrow> reachable node"
| step: "reachable node \<Longrightarrow> token_step node node1 \<Longrightarrow> reachable node1"

definition token_count :: "ConnectorScanNode \<Rightarrow> nat" where
  "token_count node =
    (if pending_token_slot node then 1 else 0) + length (filter pending_token (scanners node))"

text \<open>
  The same operations, one atomic access at a time. \<^verbatim>\<open>atomic_cas\<close> is the
  \<^verbatim>\<open>compare_exchange_strong\<close> on the slot followed, when it succeeded, by the store to
  the scanner's flag; \<^verbatim>\<open>release_pending_token\<close> is the store of false to the
  scanner's flag followed by the store of true to the slot. A scanner is run by one
  worker at a time; \<open>Swapped\<close> and \<open>Cleared\<close> say that this worker stands between the
  two accesses.
\<close>

datatype token_pc = Idle | Swapped | Cleared

inductive token_access ::
  "ConnectorScanNode \<times> token_pc list \<Rightarrow> ConnectorScanNode \<times> token_pc list \<Rightarrow> bool" where
  exchange:
    "i < length (scanners node) \<Longrightarrow> i < length pcs \<Longrightarrow> pcs ! i = Idle \<Longrightarrow>
     compare_exchange_strong (pending_token_slot node) True (pending_token (scanners node ! i))
       = (res, token) \<Longrightarrow>
     token_access (node, pcs)
       (node\<lparr>pending_token_slot := token\<rparr>, pcs[i := (if res then Swapped else Idle)])"
| store_expect:
    "i < length (scanners node) \<Longrightarrow> i < length pcs \<Longrightarrow> pcs ! i = Swapped \<Longrightarrow>
     token_access (node, pcs)
       (node\<lparr>scanners := (scanners node)[i := (scanners node ! i)\<lparr>pending_token := True\<rparr>]\<rparr>,
        pcs[i := Idle])"
| clear_flag:
    "i < length (scanners node) \<Longrightarrow> i < length pcs \<Longrightarrow> pcs ! i = Idle \<Longrightarrow>
     pending_token (scanners node ! i) \<Longrightarrow>
     token_access (node, pcs)
       (node\<lparr>scanners := (scanners node)[i := (scanners node ! i)\<lparr>pending_token := False\<rparr>]\<rparr>,
        pcs[i := Cleared])"
| store_slot:
    "i < length (scanners node) \<Longrightarrow> i < length pcs \<Longrightarrow> pcs ! i = Cleared \<Longrightarrow>
     token_access (node, pcs) (node\<lparr>pending_token_slot := True\<rparr>, pcs[i := Idle])"

inductive reachable_access :: "ConnectorScanNode \<times> token_pc list \<Rightarrow> bool" where
  initial_access:
    "list_all (\<lambda>sc. \<not> pending_token sc) (scanners node) \<Longrightarrow> list_all (\<lambda>pc. pc = Idle) pcs \<Longrightarrow>
     reachable_access (node, pcs)"
| step_access:
    "reachable_access cfg \<Longrightarrow> token_access cfg cfg1 \<Longrightarrow> reachable_access cfg1"

section \<open>Connector scan node: the consumer loop\<close>

text \<open>
  A chunk, as far as \<^verbatim>\<open>get_next\<close> uses it: \<^verbatim>\<open>num_rows()\<close> and
  \<^verbatim>\<open>set_num_rows()\<close>. Row counts are mathematical integers: the 64-bit counters do not
  overflow on any run that a machine can make.
\<close>

record Chunk =
  chunk_num_rows :: int

text \<open>
  What the rest of the system does during one call of \<^verbatim>\<open>get_next\<close>: the status that
  workers pass to \<^verbatim>\<open>_update_status\<close> before the call reads \<^verbatim>\<open>_status\<close> at its
  start, before it reads it again after the start-up block, and while it waits in
  \<^verbatim>\<open>blocking_get\<close> (\<open>OK\<close> when no worker reports anything); the status that
  \<^verbatim>\<open>_start_scan_thread\<close> returns if it is called; the answer of \<^verbatim>\<open>blocking_get\<close>,
  which is the chunk as \<^verbatim>\<open>eval_join_runtime_filters\<close> leaves it, or \<open>None\<close> when
  \<^verbatim>\<open>blocking_get\<close> returns false; and whether refilling the chunk pool runs out of
  memory.
\<close>

record get_next_env =
  worker_status_entry :: Status
  start_scan_status :: Status
  worker_status_started :: Status
  worker_status_waiting :: Status
  queue_answer :: "Chunk option"
  fill_bad_alloc :: bool

text \<open>\<^verbatim>\<open>_update_status\<close>: the first status that is not \<open>OK\<close> stays.\<close>

definition update_status :: "Status \<Rightarrow> ConnectorScanNode \<Rightarrow> ConnectorScanNode" where
  "update_status st node = (if ok (status node) then node\<lparr>status := st\<rparr> else node)"

text \<open>
  Modelled from the spec: \<^verbatim>\<open>ExecNode::reached_limit\<close> is declared in a header that is
  not among the sources; the limit is reached when one is set (it is not \<open>-1\<close>, as in
  \<^verbatim>\<open>limit() != -1\<close> of the worker) and the rows returned have come up to it.
\<close>

definition reached_limit :: "ConnectorScanNode \<Rightarrow> bool" where
  "reached_limit node = (limit node \<noteq> - 1 \<and> limit node \<le> num_rows_returned node)"

text \<open>
  The result of a call: the status returned, the chunk that \<^verbatim>\<open>*chunk\<close> holds for the
  caller (\<open>None\<close> for a null pointer), and \<^verbatim>\<open>*eos\<close> if the call has written it.
\<close>

record get_next_result =
  returned :: Status
  chunk :: "Chunk option"
  eos :: "bool option"

text \<open>
  \<^verbatim>\<open>ConnectorScanNode::get_next\<close> after its start-up block. The block that admits one
  more pending scanner (it changes scheduling state only, which nothing here reads) is left
  out.
\<close>

definition get_next_started ::
  "get_next_env \<Rightarrow> ConnectorScanNode \<Rightarrow> get_next_result \<times> ConnectorScanNode" where
  "get_next_started env node0 =
    (let node = update_status (worker_status_started env) node0;
         st = status node
     in if \<not> ok st then
          (\<lparr>returned = (if is_end_of_file st then OK else st), chunk = None, eos = Some True\<rparr>, node)
        else
          (let node1 = update_status (worker_status_waiting env) node
           in case queue_answer env of
                Some c \<Rightarrow>
                  if fill_bad_alloc env then
                    (\<lparr>returned = MemLimitExceeded, chunk = Some c, eos = None\<rparr>, node1)
                  else
                    (let node2 = node1\<lparr>num_rows_returned := num_rows_returned node1 + chunk_num_rows c\<rparr>
                     in if reached_limit node2 then
                          (let num_rows_over = num_rows_returned node2 - limit node2;
                               c1 = c\<lparr>chunk_num_rows := chunk_num_rows c - num_rows_over\<rparr>;
                               node3 = update_status EndOfFile node2;
                               node4 = node3\<lparr>result_chunks_shutdown := True\<rparr>
                           in (\<lparr>returned = OK, chunk = Some c1, eos = Some False\<rparr>, node4))
                        else (\<lparr>returned = OK, chunk = Some c, eos = Some False\<rparr>, node2))
              | None \<Rightarrow>
                  (let node2 = update_status EndOfFile node1;
                       st1 = status node2
                   in (\<lparr>returned = (if is_end_of_file st1 then OK else st1), chunk = None,
                        eos = Some True\<rparr>, node2))))"

text \<open>
  \<^verbatim>\<open>ConnectorScanNode::get_next\<close>. When \<^verbatim>\<open>_start_scan_thread\<close> fails, the call
  returns its status before it touches \<^verbatim>\<open>*chunk\<close> or \<^verbatim>\<open>*eos\<close>.
\<close>

definition get_next ::
  "get_next_env \<Rightarrow> ConnectorScanNode \<Rightarrow> get_next_result \<times> ConnectorScanNode" where
  "get_next env node0 =
    (let node = update_status (worker_status_entry env) node0
     in if \<not> start node \<and> ok (status node) then
          (let st = start_scan_status env;
               node1 = (update_status st node)\<lparr>start := True\<rparr>
           in if \<not> ok st then (\<lparr>returned = st, chunk = None, eos = None\<rparr>, node1)
              else get_next_started env node1)
        else if \<not> start node then
          get_next_started env (node\<lparr>result_chunks_shutdown := True, start := True\<rparr>)
        else get_next_started env node)"

text \<open>
  The rows that the consumer observes in one call: those of the chunk it is handed with a
  status \<open>OK\<close>. A run is a sequence of calls; \<open>consume\<close> adds up the rows observed.
\<close>

definition rows_observed :: "get_next_result \<Rightarrow> int" where
  "rows_observed r =
    (case chunk r of Some c \<Rightarrow> (if ok (returned r) then chunk_num_rows c else 0) | None \<Rightarrow> 0)"

fun consume :: "get_next_env list \<Rightarrow> ConnectorScanNode \<Rightarrow> int \<times> ConnectorScanNode" where
  "consume [] node = (0, node)"
| "consume (env # envs) node =
    (let (r, node1) = get_next env node;
         (rows, node2) = consume envs node1
     in (rows_observed r + rows, node2))"

text \<open>
  The invariant of a run of the consumer, for a node with a limit: as soon as the rows
  counted in \<^verbatim>\<open>_num_rows_returned\<close> exceed the limit, the status of the node is not
  \<open>OK\<close>, so that no later call hands out a chunk.
\<close>

definition limit_inv :: "ConnectorScanNode \<Rightarrow> bool" where
  "limit_inv node = (0 \<le> limit node \<and> (limit node < num_rows_returned node \<longrightarrow> \<not> ok (status node)))"

section \<open>Connector scan node: the workers\<close>

text \<open>
  The node together with the members that schedule its scanners: the stack
  \<^verbatim>\<open>_pending_scanners\<close> (its top first), \<^verbatim>\<open>_num_scanners\<close>, the atomic counter
  \<^verbatim>\<open>_closed_scanners\<close>, and the scanners on which \<^verbatim>\<open>close\<close> has been called, in the
  order of the calls. As in a task, a scanner is named by its position in the object pool.
\<close>

record NodeScheduling =
  scan_node :: ConnectorScanNode
  pending_scanners :: "nat list"
  num_scanners :: int
  closed_scanners :: "32 word"
  closed_sources :: "nat list"

text \<open>\<^verbatim>\<open>_push_pending_scanner\<close>; the stop watch of the queueing time is left out.\<close>

definition push_pending_scanner :: "nat \<Rightarrow> NodeScheduling \<Rightarrow> NodeScheduling" where
  "push_pending_scanner scanner s = s\<lparr>pending_scanners := scanner # pending_scanners s\<rparr>"

text \<open>\<^verbatim>\<open>ConnectorScanner::close\<close> closes the data source.\<close>

definition ConnectorScanner_close :: "nat \<Rightarrow> NodeScheduling \<Rightarrow> NodeScheduling" where
  "ConnectorScanner_close scanner s = s\<lparr>closed_sources := closed_sources s @ [scanner]\<rparr>"

text \<open>
  \<^verbatim>\<open>_create_and_init_scanner\<close> makes a data source for a scan range, adds a new scanner
  for it to the object pool and pushes the scanner. \<^verbatim>\<open>_start_scan_thread\<close> does so for
  every scan range, reverses the stack and sets \<^verbatim>\<open>_num_scanners\<close>; this is the state
  before it submits the first scanners.
\<close>

definition create_and_init_scanner :: "DataSource \<Rightarrow> NodeScheduling \<Rightarrow> NodeScheduling" where
  "create_and_init_scanner ds s =
    push_pending_scanner (length (scanners (scan_node s)))
      (s\<lparr>scan_node := (scan_node s)\<lparr>scanners := scanners (scan_node s) @ [new_ConnectorScanner ds]\<rparr>\<rparr>)"

definition create_scanners :: "DataSource list \<Rightarrow> NodeScheduling \<Rightarrow> NodeScheduling" where
  "create_scanners data_sources s =
    (let s1 = foldl (\<lambda>s ds. create_and_init_scanner ds s) s data_sources
     in s1\<lparr>pending_scanners := rev (pending_scanners s1),
           num_scanners := int (length (pending_scanners s1))\<rparr>)"

text \<open>The token operations of a scanner of the pool against the slot of the node.\<close>

definition scanner_acquire_pending_token :: "nat \<Rightarrow> ConnectorScanNode \<Rightarrow> ConnectorScanNode" where
  "scanner_acquire_pending_token scanner node =
    (let (res, sc, token) = acquire_pending_token (scanners node ! scanner) (pending_token_slot node)
     in node\<lparr>scanners := (scanners node)[scanner := sc], pending_token_slot := token\<rparr>)"

definition scanner_release_pending_token :: "nat \<Rightarrow> ConnectorScanNode \<Rightarrow> ConnectorScanNode" where
  "scanner_release_pending_token scanner node =
    (let (res, sc, token) = release_pending_token (scanners node ! scanner) (pending_token_slot node)
     in node\<lparr>scanners := (scanners node)[scanner := sc], pending_token_slot := token\<rparr>)"

text \<open>
  \<^verbatim>\<open>_close_pending_scanners\<close> pops and closes every pending scanner;
  \<^verbatim>\<open>_release_scanner\<close> releases the token of the scanner, closes it, counts it and
  closes the pending ones.
\<close>

fun close_pending_loop :: "nat list \<Rightarrow> NodeScheduling \<Rightarrow> NodeScheduling" where
  "close_pending_loop [] s = s"
| "close_pending_loop (scanner # rest) s =
    close_pending_loop rest
      ((ConnectorScanner_close scanner (s\<lparr>pending_scanners := rest\<rparr>))
         \<lparr>closed_scanners := closed_scanners s + 1\<rparr>)"

definition close_pending_scanners :: "NodeScheduling \<Rightarrow> NodeScheduling" where
  "close_pending_scanners s = close_pending_loop (pending_scanners s) s"

definition release_scanner :: "nat \<Rightarrow> NodeScheduling \<Rightarrow> NodeScheduling" where
  "release_scanner scanner s =
    (let s1 = s\<lparr>scan_node := scanner_release_pending_token scanner (scan_node s)\<rparr>;
         s2 = ConnectorScanner_close scanner s1;
         s3 = s2\<lparr>closed_scanners := closed_scanners s2 + 1\<rparr>
     in close_pending_scanners s3)"

text \<open>
  The loop by which the holder of the token submits pending scanners:
  \<^verbatim>\<open>while (need_put-- > 0 && !_pending_scanners.empty())\<close>, left at the first scanner
  that the pool refuses. That scanner has been popped and is not pushed back. The result
  is the stack and the node afterwards.
\<close>

fun submit_pending_scanners ::
  "int \<Rightarrow> nat list \<Rightarrow> ConnectorScanNode \<Rightarrow> nat list \<times> ConnectorScanNode" where
  "submit_pending_scanners need_put [] node = ([], node)"
| "submit_pending_scanners need_put (scanner # rest) node =
    (if need_put > 0 then
       (let (submitted, node1, events) = submit_scanner node scanner False
        in if \<not> submitted then (rest, node1)
           else submit_pending_scanners (need_put - 1) rest node1)
     else (scanner # rest, node))"

text \<open>
  What the rest of the system does during one run of \<^verbatim>\<open>_scanner_thread\<close>. For one
  round of the produce loop: the status that other threads pass to
  \<^verbatim>\<open>_update_status\<close> before the round reads \<^verbatim>\<open>_get_status()\<close>, whether the chunk
  pool is empty, the status of the data source's \<^verbatim>\<open>get_next\<close>, the answer of
  \<^verbatim>\<open>_result_chunks.put\<close>, the data source's \<^verbatim>\<open>num_rows_read()\<close>, and whether its
  \<^verbatim>\<open>raw_rows_read()\<close> has come up to the threshold. For the run: the status that
  other threads report before the first and before the last read of
  \<^verbatim>\<open>_get_status()\<close>, the configuration values, the content of
  \<^verbatim>\<open>connector_scan_node_open_limit\<close> at each of its two reads, and the rounds of the
  loop.
\<close>

record loop_env =
  worker_status_loop :: Status
  chunk_pool_empty :: bool
  get_next_status :: Status
  put_result :: bool
  num_rows_read :: int
  raw_rows_threshold_reached :: bool

record scanner_thread_env =
  worker_status_begin :: Status
  max_hdfs_file_handle :: int
  max_hdfs_scanner_num :: int
  open_limit_yield :: int
  open_limit_admission :: int
  loop_envs :: "loop_env list"
  worker_status_end :: Status

text \<open>
  \<^verbatim>\<open>_scanner_thread\<close> up to and including its call of \<^verbatim>\<open>scanner->open\<close> and
  \<^verbatim>\<open>set_keep_priority(false)\<close>: \<open>Inl\<close> the state in which the body returns before
  that call, \<open>Inr\<close> the status of \<^verbatim>\<open>open\<close> and the state after it.
\<close>

definition scanner_thread_open ::
  "scanner_thread_env \<Rightarrow> nat \<Rightarrow> NodeScheduling \<Rightarrow> NodeScheduling + Status \<times> NodeScheduling" where
  "scanner_thread_open env scanner s =
    (let s1 = s\<lparr>scan_node := update_status (worker_status_begin env) (scan_node s)\<rparr>
     in if \<not> ok (status (scan_node s1)) then Inl (release_scanner scanner s1)
        else
          let concurrency_limit = max_hdfs_file_handle env;
              s2 =
                (if has_pending_token (scanners (scan_node s1) ! scanner) then
                   (let concurrency = min (max_hdfs_scanner_num env) (num_scanners s1);
                        need_put = concurrency - sint (running_threads (scan_node s1));
                        left_resource = concurrency_limit - open_limit_yield env
                    in if left_resource > 0 then
                         (let (pending, node1) =
                                submit_pending_scanners (min left_resource need_put)
                                  (pending_scanners s1) (scan_node s1)
                          in s1\<lparr>scan_node := node1, pending_scanners := pending\<rparr>)
                       else s1)
                 else s1);
              s3 =
                (if \<not> has_pending_token (scanners (scan_node s2) ! scanner)
                 then s2\<lparr>scan_node := scanner_acquire_pending_token scanner (scan_node s2)\<rparr>
                 else s2);
              sc = scanners (scan_node s3) ! scanner
          in if \<not> is_open sc \<and> open_limit_admission env > concurrency_limit
                \<and> \<not> has_pending_token sc
             then Inl (push_pending_scanner scanner s3)
             else
               let (st, sc1) = ConnectorScanner_open sc;
                   sc2 = sc1\<lparr>keep_priority := False\<rparr>
               in Inr (st, s3\<lparr>scan_node :=
                               (scan_node s3)\<lparr>scanners := (scanners (scan_node s3))[scanner := sc2]\<rparr>\<rparr>))"

text \<open>
  The produce loop, \<^verbatim>\<open>while (status.ok())\<close>, over the rounds that the environment
  gives. The result is the local status, \<^verbatim>\<open>resubmit\<close>, whether \<^verbatim>\<open>scanner\<close> is still
  the scanner (it is \<^verbatim>\<open>nullptr\<close> once the scanner has been pushed back for want of a
  chunk) and the state; \<open>None\<close> when the loop has not ended after these rounds.
\<close>

fun produce_loop ::
  "loop_env list \<Rightarrow> nat \<Rightarrow> Status \<Rightarrow> NodeScheduling \<Rightarrow> (Status \<times> bool \<times> bool \<times> NodeScheduling) option" where
  "produce_loop [] scanner st s = (if \<not> ok st then Some (st, False, True, s) else None)"
| "produce_loop (e # rest) scanner st s =
    (if \<not> ok st then Some (st, False, True, s)
     else
       let s1 = s\<lparr>scan_node := update_status (worker_status_loop e) (scan_node s)\<rparr>
       in if \<not> ok (status (scan_node s1)) then Some (st, False, True, s1)
          else if chunk_pool_empty e then
            (let node1 = (scan_node s1)\<lparr>scanners :=
                           (scanners (scan_node s1))
                             [scanner := (scanners (scan_node s1) ! scanner)\<lparr>keep_priority := True\<rparr>]\<rparr>;
                 node2 = scanner_release_pending_token scanner node1
             in Some (st, False, False, push_pending_scanner scanner (s1\<lparr>scan_node := node2\<rparr>)))
          else
            let st1 = get_next_status e
            in if \<not> ok st1 then Some (st1, False, True, s1)
               else if \<not> put_result e then Some (Aborted, False, True, s1)
               else if limit (scan_node s1) \<noteq> - 1 \<and> num_rows_read e \<ge> limit (scan_node s1)
               then Some (EndOfFile, False, True, s1)
               else if raw_rows_threshold_reached e then Some (st1, True, True, s1)
               else produce_loop rest scanner st1 s1)"

text \<open>
  \<^verbatim>\<open>_scanner_thread\<close> after the loop. \<^verbatim>\<open>DCHECK(scanner == nullptr)\<close> is
  compiled out of release builds and is not modelled.
\<close>

definition scanner_thread_finish ::
  "scanner_thread_env \<Rightarrow> nat \<Rightarrow> Status \<times> bool \<times> bool \<times> NodeScheduling \<Rightarrow> NodeScheduling" where
  "scanner_thread_finish env scanner r =
    (let (st, resubmit, owned, s) = r;
         s1 = s\<lparr>scan_node := update_status (worker_status_end env) (scan_node s)\<rparr>;
         global_status = status (scan_node s1)
     in if ok global_status then
          (if ok st \<and> resubmit then
             (let (submitted, node1, events) = submit_scanner (scan_node s1) scanner False
              in if \<not> submitted
                 then push_pending_scanner scanner
                        (s1\<lparr>scan_node := scanner_release_pending_token scanner node1\<rparr>)
                 else s1\<lparr>scan_node := node1\<rparr>)
           else if ok st then s1
           else if is_end_of_file st then
             (let s2 = s1\<lparr>scan_node := scanner_release_pending_token scanner (scan_node s1)\<rparr>;
                  s3 = ConnectorScanner_close scanner s2;
                  s4 = s3\<lparr>closed_scanners := closed_scanners s3 + 1\<rparr>
              in case pending_scanners s4 of
                   [] \<Rightarrow> s4
                 | nscanner # rest \<Rightarrow>
                     (let (submitted, node1, events) = submit_scanner (scan_node s4) nscanner False;
                          s5 = s4\<lparr>scan_node := node1, pending_scanners := rest\<rparr>
                      in if \<not> submitted then push_pending_scanner nscanner s5 else s5))
           else release_scanner scanner (s1\<lparr>scan_node := update_status st (scan_node s1)\<rparr>))
        else if owned then release_scanner scanner s1
        else s1)"

text \<open>
  The \<^verbatim>\<open>DeferOp\<close> that runs when \<^verbatim>\<open>_scanner_thread\<close> returns, and the whole
  function: \<open>None\<close> when the produce loop has not ended.
\<close>

definition scanner_thread_exit :: "NodeScheduling \<Rightarrow> NodeScheduling" where
  "scanner_thread_exit s =
    (let node1 = (scan_node s)\<lparr>running_threads := running_threads (scan_node s) - 1\<rparr>
     in s\<lparr>scan_node :=
           (if sint (closed_scanners s) = num_scanners s
            then node1\<lparr>result_chunks_shutdown := True\<rparr> else node1)\<rparr>)"

definition scanner_thread :: "scanner_thread_env \<Rightarrow> nat \<Rightarrow> NodeScheduling \<Rightarrow> NodeScheduling option" where
  "scanner_thread env scanner s =
    map_option scanner_thread_exit
      (case scanner_thread_open env scanner s of
         Inl s1 \<Rightarrow> Some s1
       | Inr (st, s1) \<Rightarrow>
           (case produce_loop (loop_envs env) scanner st s1 of
              None \<Rightarrow> None
            | Some r \<Rightarrow> Some (scanner_thread_finish env scanner r)))"

text \<open>
  The life of the scanners of a node. It starts in the state that
  \<^verbatim>\<open>_start_scan_thread\<close> builds from the data sources of the scan ranges, on a node
  that has no scanner and no task yet. From then on: \<^verbatim>\<open>_start_scan_thread\<close> or
  \<^verbatim>\<open>get_next\<close> pops a pending scanner and submits it with \<open>blockable\<close>; a worker of
  the pool takes a task and runs \<^verbatim>\<open>_scanner_thread\<close> on its scanner to the end, or
  is still in the produce loop, which it entered after the call of \<^verbatim>\<open>open\<close>;
  \<^verbatim>\<open>ConnectorScanNode::close\<close> closes the pending scanners. A scanner is run by one
  worker at a time, so a run is one step.
\<close>

definition take_task :: "Task list \<Rightarrow> NodeScheduling \<Rightarrow> NodeScheduling" where
  "take_task tasks s =
    s\<lparr>scan_node := (scan_node s)\<lparr>thread_pool := (thread_pool (scan_node s))\<lparr>accepted := tasks\<rparr>\<rparr>\<rparr>"

inductive scan_step :: "NodeScheduling \<Rightarrow> NodeScheduling \<Rightarrow> bool" where
  pop_and_submit:
    "pending_scanners s = scanner # rest \<Longrightarrow>
     submit_scanner (scan_node s) scanner True = (submitted, node1, events) \<Longrightarrow>
     scan_step s (s\<lparr>scan_node := node1, pending_scanners := rest\<rparr>)"
| worker_returns:
    "accepted (thread_pool (scan_node s)) = before @ t # after \<Longrightarrow>
     scanner_thread env (task_scanner t) (take_task (before @ after) s) = Some s1 \<Longrightarrow>
     scan_step s s1"
| worker_in_loop:
    "accepted (thread_pool (scan_node s)) = before @ t # after \<Longrightarrow>
     scanner_thread_open env (task_scanner t) (take_task (before @ after) s) = Inr (st, s1) \<Longrightarrow>
     scan_step s s1"
| node_close:
    "scan_step s (close_pending_scanners s)"

inductive scan_reachable :: "DataSource list \<Rightarrow> NodeScheduling \<Rightarrow> bool" where
  started:
    "scanners (scan_node s) = [] \<Longrightarrow> pending_scanners s = [] \<Longrightarrow>
     accepted (thread_pool (scan_node s)) = [] \<Longrightarrow>
     scan_reachable data_sources (create_scanners data_sources s)"
| stepped:
    "scan_reachable data_sources s \<Longrightarrow> scan_step s s1 \<Longrightarrow> scan_reachable data_sources s1"

text \<open>How often a scanner is queued: as a task of the pool or in the pending stack.\<close>

definition queued_count :: "nat \<Rightarrow> NodeScheduling \<Rightarrow> nat" where
  "queued_count i s =
    count_list (map task_scanner (accepted (thread_pool (scan_node s)))) i
    + count_list (pending_scanners s) i"

text \<open>What the data source of a scanner has seen: the data source and the open flag.\<close>

definition opened :: "ConnectorScanner \<Rightarrow> DataSource \<times> bool" where
  "opened sc = (data_source sc, is_open sc)"

text \<open>
  Scanner \<open>i\<close>, made for the data source \<open>ds\<close>, has opened it at most once: the scanner is
  queued at most once, its data source gives the answers of \<open>ds\<close>, and either the one call
  of \<^verbatim>\<open>open\<close> has been made and has succeeded, and the scanner is open; or no call has
  been made; or the one call has been made and has failed, and the scanner is not queued.
\<close>

definition opened_once :: "DataSource \<Rightarrow> nat \<Rightarrow> NodeScheduling \<Rightarrow> bool" where
  "opened_once ds i s \<longleftrightarrow>
    queued_count i s \<le> 1 \<and>
    (case opened (scanners (scan_node s) ! i) of
       (ds1, is_opened) \<Rightarrow>
         open_answers ds1 = open_answers ds \<and>
         (if is_opened
          then open_calls ds1 = open_calls ds + 1 \<and> ok (open_answers ds (open_calls ds))
          else open_calls ds1 = open_calls ds
               \<or> (open_calls ds1 = open_calls ds + 1 \<and> \<not> ok (open_answers ds (open_calls ds))
                   \<and> queued_count i s = 0)))"

section \<open>Lake tablet manager: protobuf messages\<close>

text \<open>
  The messages of \<^verbatim>\<open>lake_types.proto\<close>, with the fields the modelled functions read
  or write. The schema file itself is not among the sources; rowset ids are taken as
  unsigned 32-bit numbers, so that \<open>+\<close> on them wraps around. An optional message field is
  an \<open>option\<close> (\<^verbatim>\<open>has_rowset()\<close> is \<open>rowset w \<noteq> None\<close>), a repeated field is a list.
\<close>

record RowsetMetadata =
  rowset_id :: "32 word"
  segments :: "string list"
  num_rows :: int

record TabletMetadata =
  tablet_id :: int
  version :: int
  next_rowset_id :: "32 word"
  rowsets :: "RowsetMetadata list"

record TxnLogPB_OpWrite =
  rowset :: "RowsetMetadata option"

record TxnLogPB_OpCompaction =
  input_rowsets :: "32 word list"
  output_rowset :: "RowsetMetadata option"

datatype TxnLogPB_OpSchemaChange = OpSchemaChange

record TxnLog =
  log_tablet_id :: "int option"
  log_txn_id :: "int option"
  op_write :: "TxnLogPB_OpWrite option"
  op_compaction :: "TxnLogPB_OpCompaction option"
  op_schema_change :: "TxnLogPB_OpSchemaChange option"

text \<open>\<^verbatim>\<open>rowset->segments_size()\<close>, an \<^verbatim>\<open>int\<close>, added to the unsigned id.\<close>

definition segments_size :: "RowsetMetadata \<Rightarrow> 32 word" where
  "segments_size r = of_nat (length (segments r))"

section \<open>Lake tablet manager: applying transaction logs\<close>

text \<open>
  \<^verbatim>\<open>apply_write_log\<close>. The metadata is mutated through a pointer; the model returns
  the status together with the metadata as the call leaves it.
\<close>

definition apply_write_log :: "TxnLogPB_OpWrite \<Rightarrow> TabletMetadata \<Rightarrow> Status \<times> TabletMetadata" where
  "apply_write_log opw metadata =
    (case rowset opw of
       None \<Rightarrow> (OK, metadata)
     | Some r \<Rightarrow>
         if num_rows r > 0 then
           let new_rowset = r\<lparr>rowset_id := next_rowset_id metadata\<rparr>
           in (OK, metadata
                 \<lparr>next_rowset_id := next_rowset_id metadata + segments_size new_rowset,
                  rowsets := rowsets metadata @ [new_rowset]\<rparr>)
         else (OK, metadata))"

text \<open>
  \<^verbatim>\<open>std::find_if(begin + first, end, Finder{id})\<close> over the rowsets, as an index: the
  first position at or after \<open>first\<close> whose rowset has the id, and \<open>length rs\<close> (the
  end iterator) when there is none.
\<close>

definition Finder :: "32 word \<Rightarrow> RowsetMetadata \<Rightarrow> bool" where
  "Finder i r = (rowset_id r = i)"

definition find_if :: "nat \<Rightarrow> (RowsetMetadata \<Rightarrow> bool) \<Rightarrow> RowsetMetadata list \<Rightarrow> nat" where
  "find_if first_pos pred rs =
     first_pos + length (takeWhile (\<lambda>r. \<not> pred r) (drop first_pos rs))"

text \<open>
  The safety-check loop of \<^verbatim>\<open>apply_compaction_log\<close>:
  \<^verbatim>\<open>for (int i = 1, sz = metadata->rowsets_size(); i < sz; i++)\<close>. The bound is the
  number of rowsets of the metadata, as in the source. \<^verbatim>\<open>op_compaction.input_rowsets(i)\<close>
  with \<open>i\<close> beyond the inputs reads outside the repeated field, which has no defined
  result: the loop then yields \<open>None\<close>. Otherwise it yields the error it stopped with,
  or the last input position.
\<close>

function adjacency_loop ::
  "32 word list \<Rightarrow> RowsetMetadata list \<Rightarrow> nat \<Rightarrow> nat \<Rightarrow> (Status + nat) option" where
  "adjacency_loop inputs rs i pre_input_pos =
    (if i < length rs then
       (if i < length inputs then
          (let it = find_if (pre_input_pos + 1) (Finder (inputs ! i)) rs
           in if it = length rs then Some (Inl InternalError)
              else if it \<noteq> pre_input_pos + 1 then Some (Inl InternalError)
              else adjacency_loop inputs rs (i + 1) it)
        else None)
     else Some (Inr pre_input_pos))"
  by pat_completeness auto
termination
  by (relation "measure (\<lambda>(inputs, rs, i, pre_input_pos). length rs - i)") auto

text \<open>\<^verbatim>\<open>RepeatedPtrField::erase(first, last)\<close>: drops the positions \<open>first \<le> k < last\<close>.\<close>

definition erase :: "nat \<Rightarrow> nat \<Rightarrow> 'a list \<Rightarrow> 'a list" where
  "erase first_pos last_pos xs = take first_pos xs @ drop last_pos xs"

text \<open>
  \<^verbatim>\<open>apply_compaction_log\<close>. The \<^verbatim>\<open>DCHECK\<close> of the empty-input branch is compiled
  out of release builds and is not modelled.
\<close>

definition apply_compaction_log ::
  "TxnLogPB_OpCompaction \<Rightarrow> TabletMetadata \<Rightarrow> (Status \<times> TabletMetadata) option" where
  "apply_compaction_log opc metadata =
    (if input_rowsets opc = [] then Some (OK, metadata)
     else
       let input_id = input_rowsets opc ! 0;
           first_input_pos = find_if 0 (Finder input_id) (rowsets metadata)
       in if first_input_pos = length (rowsets metadata) then Some (InternalError, metadata)
          else
            (case adjacency_loop (input_rowsets opc) (rowsets metadata) 1
                    first_input_pos of
               None \<Rightarrow> None
             | Some (Inl st) \<Rightarrow> Some (st, metadata)
             | Some (Inr pre_input_pos) \<Rightarrow>
                 let (metadata1, first_input_pos1) =
                       (case output_rowset opc of
                          None \<Rightarrow> (metadata, first_input_pos)
                        | Some out \<Rightarrow>
                            if num_rows out > 0 then
                              let output = out\<lparr>rowset_id := next_rowset_id metadata\<rparr>
                              in (metadata
                                    \<lparr>next_rowset_id := next_rowset_id metadata + segments_size output,
                                     rowsets := (rowsets metadata)[first_input_pos := output]\<rparr>,
                                  first_input_pos + 1)
                            else (metadata, first_input_pos));
                     end_input_pos = pre_input_pos + 1
                 in Some (OK, metadata1
                            \<lparr>rowsets := erase first_input_pos1 end_input_pos (rowsets metadata1)\<rparr>)))"

text \<open>
  \<^verbatim>\<open>apply_txn_log\<close>: \<^verbatim>\<open>RETURN_IF_ERROR\<close> leaves with the status of the failed part
  and with the metadata as the parts before it left it.
\<close>

definition apply_txn_log :: "TxnLog \<Rightarrow> TabletMetadata \<Rightarrow> (Status \<times> TabletMetadata) option" where
  "apply_txn_log txn_log metadata =
    (let (st1, metadata1) =
           (case op_write txn_log of
              None \<Rightarrow> (OK, metadata)
            | Some w \<Rightarrow> apply_write_log w metadata)
     in if \<not> ok st1 then Some (st1, metadata1)
        else
          (case (case op_compaction txn_log of
                   None \<Rightarrow> Some (OK, metadata1)
                 | Some c \<Rightarrow> apply_compaction_log c metadata1) of
             None \<Rightarrow> None
           | Some (st2, metadata2) \<Rightarrow>
               if \<not> ok st2 then Some (st2, metadata2)
               else if op_schema_change txn_log \<noteq> None then Some (NotSupported, metadata2)
               else Some (OK, metadata2)))"

section \<open>Lake tablet manager: file system and metadata cache\<close>

text \<open>
  Modelled from the spec: the \<^verbatim>\<open>LocationProvider\<close> is not among the sources. It names
  the metadata object of a tablet at a version \<^verbatim>\<open>tbl_<tabletId>_<version>\<close> and the log
  of a transaction \<^verbatim>\<open>txn_<tabletId>_<txnId>\<close>: different ids give different paths. A
  path is kept as the pair of ids it was made from.
\<close>

datatype location = TabletMetadataLocation int int | TxnLogLocation int int

definition tablet_metadata_location :: "int \<Rightarrow> int \<Rightarrow> location" where
  "tablet_metadata_location tablet v = TabletMetadataLocation tablet v"

definition txn_log_location :: "int \<Rightarrow> int \<Rightarrow> location" where
  "txn_log_location tablet txn = TxnLogLocation tablet txn"

text \<open>
  The file system is an external collaborator. The model is a mock of it: the objects it
  holds, the paths at which a read, the opening of a writable file, an append, a close or
  a delete fails (with an I/O error), and the list of the operations asked of it. An
  object holds the message that was serialised into it, or is \<open>Torn\<close>: truncated by
  \<^verbatim>\<open>CREATE_OR_OPEN_WITH_TRUNCATE\<close> and not completed. Parsing fails on a torn object and
  on a message of the other kind. File sizes (the check against \<^verbatim>\<open>INT_MAX\<close>) are not
  modelled.
\<close>

datatype FileContent = MetadataFile TabletMetadata | TxnLogFile TxnLog | Torn

datatype FsOp = FsRead location | FsWrite location | FsDelete location

record FileSystem =
  files :: "location \<Rightarrow> FileContent option"
  unreadable :: "location set"
  open_fails :: "location set"
  append_fails :: "location set"
  close_fails :: "location set"
  delete_fails :: "location set"
  fs_log :: "FsOp list"

text \<open>
  \<^verbatim>\<open>new_random_access_file\<close>, \<^verbatim>\<open>get_size\<close> and \<^verbatim>\<open>read_at_fully\<close> in one
  step: the content of the object, or the status of the failure.
\<close>

definition read_file :: "location \<Rightarrow> FileSystem \<Rightarrow> (Status + FileContent) \<times> FileSystem" where
  "read_file loc f =
    (let f1 = f\<lparr>fs_log := fs_log f @ [FsRead loc]\<rparr>
     in if loc \<in> unreadable f then (Inl IOError, f1)
        else (case files f loc of None \<Rightarrow> (Inl NotFound, f1) | Some c \<Rightarrow> (Inr c, f1)))"

text \<open>
  A writable file: its path and what has been appended to it. The object is truncated
  when the file is opened and holds the appended bytes once the file is closed.
\<close>

record WritableFile =
  wf_location :: location
  wf_data :: FileContent

definition new_writable_file :: "location \<Rightarrow> FileSystem \<Rightarrow> (Status + WritableFile) \<times> FileSystem" where
  "new_writable_file loc f =
    (let f1 = f\<lparr>fs_log := fs_log f @ [FsWrite loc]\<rparr>
     in if loc \<in> open_fails f then (Inl IOError, f1)
        else (Inr \<lparr>wf_location = loc, wf_data = Torn\<rparr>, f1\<lparr>files := (files f1)(loc \<mapsto> Torn)\<rparr>))"

definition wf_append :: "WritableFile \<Rightarrow> FileContent \<Rightarrow> FileSystem \<Rightarrow> Status \<times> WritableFile" where
  "wf_append wfile bytes f =
    (if wf_location wfile \<in> append_fails f then (IOError, wfile) else (OK, wfile\<lparr>wf_data := bytes\<rparr>))"

definition wf_close :: "WritableFile \<Rightarrow> FileSystem \<Rightarrow> Status \<times> FileSystem" where
  "wf_close wfile f =
    (if wf_location wfile \<in> close_fails f then (IOError, f)
     else (OK, f\<lparr>files := (files f)(wf_location wfile \<mapsto> wf_data wfile)\<rparr>))"

definition delete_file :: "location \<Rightarrow> FileSystem \<Rightarrow> Status \<times> FileSystem" where
  "delete_file loc f =
    (let f1 = f\<lparr>fs_log := fs_log f @ [FsDelete loc]\<rparr>
     in if loc \<in> delete_fails f then (IOError, f1)
        else (case files f loc of
                None \<Rightarrow> (NotFound, f1)
              | Some c \<Rightarrow> (OK, f1\<lparr>files := (files f1)(loc := None)\<rparr>)))"

text \<open>The operations of the log that are not reads.\<close>

definition writes :: "FsOp list \<Rightarrow> FsOp list" where
  "writes ops = filter (\<lambda>op. case op of FsRead loc \<Rightarrow> False | _ \<Rightarrow> True) ops"

text \<open>
  The metadata cache (\<^verbatim>\<open>util/lru_cache.h\<close>, not among the sources) keyed by path.
  \<^verbatim>\<open>CacheValue\<close> is the variant of the pointers it stores; the schema alternative is
  left out with \<^verbatim>\<open>get_tablet_schema\<close>. The model keeps the entries, and the keys for
  which \<^verbatim>\<open>insert\<close> returns no handle. Eviction is not modelled: an entry stays until it
  is erased or replaced.
\<close>

datatype CacheValue = MetadataValue TabletMetadata | TxnLogValue TxnLog

record MetaCache =
  entries :: "location \<Rightarrow> CacheValue option"
  refused :: "location set"

text \<open>
  The tablet manager: its file system, its cache, and the default of the \<^verbatim>\<open>fill_cache\<close>
  argument of \<^verbatim>\<open>get_tablet_metadata(path, fill_cache)\<close> and
  \<^verbatim>\<open>get_txn_log(path, fill_cache)\<close>, which the header declares.
\<close>

record TabletManager =
  fs :: FileSystem
  metacache :: MetaCache
  fill_cache_default :: bool

text \<open>\<^verbatim>\<open>TabletManager::fill_metacache\<close>; the size of the value is not modelled.\<close>

definition fill_metacache :: "location \<Rightarrow> CacheValue \<Rightarrow> TabletManager \<Rightarrow> bool \<times> TabletManager" where
  "fill_metacache key v mgr =
    (if key \<in> refused (metacache mgr) then (False, mgr)
     else (True, mgr\<lparr>metacache := (metacache mgr)\<lparr>entries := (entries (metacache mgr))(key \<mapsto> v)\<rparr>\<rparr>))"

text \<open>
  \<^verbatim>\<open>lookup_tablet_metadata\<close> and \<^verbatim>\<open>lookup_txn_log\<close>: \<open>None\<close> is the null pointer.
  \<^verbatim>\<open>std::get\<close> on an entry of the other alternative would throw; no function stores
  one under such a key, and the model gives \<open>None\<close> for it.
\<close>

definition lookup_tablet_metadata :: "location \<Rightarrow> TabletManager \<Rightarrow> TabletMetadata option" where
  "lookup_tablet_metadata key mgr =
    (case entries (metacache mgr) key of Some (MetadataValue m) \<Rightarrow> Some m | _ \<Rightarrow> None)"

definition lookup_txn_log :: "location \<Rightarrow> TabletManager \<Rightarrow> TxnLog option" where
  "lookup_txn_log key mgr =
    (case entries (metacache mgr) key of Some (TxnLogValue l) \<Rightarrow> Some l | _ \<Rightarrow> None)"

definition erase_metacache :: "location \<Rightarrow> TabletManager \<Rightarrow> TabletManager" where
  "erase_metacache key mgr =
    mgr\<lparr>metacache := (metacache mgr)\<lparr>entries := (entries (metacache mgr))(key := None)\<rparr>\<rparr>"

section \<open>Lake tablet manager: metadata and transaction logs\<close>

text \<open>\<^verbatim>\<open>TabletManager::put_tablet_metadata\<close>.\<close>

definition put_tablet_metadata :: "TabletMetadata \<Rightarrow> TabletManager \<Rightarrow> Status \<times> TabletManager" where
  "put_tablet_metadata metadata mgr =
    (let metadata_location = tablet_metadata_location (tablet_id metadata) (version metadata);
         (res, fs1) = new_writable_file metadata_location (fs mgr)
     in case res of
          Inl st \<Rightarrow> (st, mgr\<lparr>fs := fs1\<rparr>)
        | Inr wfile \<Rightarrow>
            (let (st1, wfile1) = wf_append wfile (MetadataFile metadata) fs1
             in if \<not> ok st1 then (st1, mgr\<lparr>fs := fs1\<rparr>)
                else
                  (let (st2, fs2) = wf_close wfile1 fs1
                   in if \<not> ok st2 then (st2, mgr\<lparr>fs := fs2\<rparr>)
                      else
                        (let (inserted, mgr1) =
                               fill_metacache metadata_location (MetadataValue metadata)
                                 (mgr\<lparr>fs := fs2\<rparr>)
                         in (OK, mgr1)))))"

text \<open>\<^verbatim>\<open>TabletManager::load_tablet_metadata\<close> and \<^verbatim>\<open>get_tablet_metadata\<close>.\<close>

definition load_tablet_metadata ::
  "location \<Rightarrow> TabletManager \<Rightarrow> (Status + TabletMetadata) \<times> TabletManager" where
  "load_tablet_metadata metadata_location mgr =
    (let (res, fs1) = read_file metadata_location (fs mgr);
         mgr1 = mgr\<lparr>fs := fs1\<rparr>
     in case res of
          Inl st \<Rightarrow> (Inl st, mgr1)
        | Inr (MetadataFile m) \<Rightarrow> (Inr m, mgr1)
        | Inr other \<Rightarrow> (Inl Corruption, mgr1))"

definition get_tablet_metadata_path ::
  "location \<Rightarrow> bool \<Rightarrow> TabletManager \<Rightarrow> (Status + TabletMetadata) \<times> TabletManager" where
  "get_tablet_metadata_path path fill_cache mgr =
    (case lookup_tablet_metadata path mgr of
       Some ptr \<Rightarrow> (Inr ptr, mgr)
     | None \<Rightarrow>
         (let (res, mgr1) = load_tablet_metadata path mgr
          in case res of
               Inl st \<Rightarrow> (Inl st, mgr1)
             | Inr ptr \<Rightarrow>
                 if fill_cache then
                   (let (inserted, mgr2) = fill_metacache path (MetadataValue ptr) mgr1
                    in (Inr ptr, mgr2))
                 else (Inr ptr, mgr1)))"

definition get_tablet_metadata ::
  "int \<Rightarrow> int \<Rightarrow> TabletManager \<Rightarrow> (Status + TabletMetadata) \<times> TabletManager" where
  "get_tablet_metadata tablet v mgr =
    get_tablet_metadata_path (tablet_metadata_location tablet v) (fill_cache_default mgr) mgr"

text \<open>\<^verbatim>\<open>load_txn_log\<close>, \<^verbatim>\<open>get_txn_log\<close>, \<^verbatim>\<open>put_txn_log\<close> and \<^verbatim>\<open>delete_txn_log\<close>.\<close>

definition load_txn_log :: "location \<Rightarrow> TabletManager \<Rightarrow> (Status + TxnLog) \<times> TabletManager" where
  "load_txn_log txn_log_path mgr =
    (let (res, fs1) = read_file txn_log_path (fs mgr);
         mgr1 = mgr\<lparr>fs := fs1\<rparr>
     in case res of
          Inl st \<Rightarrow> (Inl st, mgr1)
        | Inr (TxnLogFile l) \<Rightarrow> (Inr l, mgr1)
        | Inr other \<Rightarrow> (Inl Corruption, mgr1))"

definition get_txn_log_path ::
  "location \<Rightarrow> bool \<Rightarrow> TabletManager \<Rightarrow> (Status + TxnLog) \<times> TabletManager" where
  "get_txn_log_path path fill_cache mgr =
    (case lookup_txn_log path mgr of
       Some ptr \<Rightarrow> (Inr ptr, mgr)
     | None \<Rightarrow>
         (let (res, mgr1) = load_txn_log path mgr
          in case res of
               Inl st \<Rightarrow> (Inl st, mgr1)
             | Inr ptr \<Rightarrow>
                 if fill_cache then
                   (let (inserted, mgr2) = fill_metacache path (TxnLogValue ptr) mgr1
                    in (Inr ptr, mgr2))
                 else (Inr ptr, mgr1)))"

definition get_txn_log :: "int \<Rightarrow> int \<Rightarrow> TabletManager \<Rightarrow> (Status + TxnLog) \<times> TabletManager" where
  "get_txn_log tablet txn mgr =
    get_txn_log_path (txn_log_location tablet txn) (fill_cache_default mgr) mgr"

definition put_txn_log :: "TxnLog \<Rightarrow> TabletManager \<Rightarrow> Status \<times> TabletManager" where
  "put_txn_log txn_log mgr =
    (case log_tablet_id txn_log of
       None \<Rightarrow> (InvalidArgument, mgr)
     | Some tablet \<Rightarrow>
         (case log_txn_id txn_log of
            None \<Rightarrow> (InvalidArgument, mgr)
          | Some txn \<Rightarrow>
              (let txn_log_path = txn_log_location tablet txn;
                   (res, fs1) = new_writable_file txn_log_path (fs mgr)
               in case res of
                    Inl st \<Rightarrow> (st, mgr\<lparr>fs := fs1\<rparr>)
                  | Inr wfile \<Rightarrow>
                      (let (st1, wfile1) = wf_append wfile (TxnLogFile txn_log) fs1
                       in if \<not> ok st1 then (st1, mgr\<lparr>fs := fs1\<rparr>)
                          else
                            (let (st2, fs2) = wf_close wfile1 fs1
                             in if \<not> ok st2 then (st2, mgr\<lparr>fs := fs2\<rparr>)
                                else
                                  (let (inserted, mgr1) =
                                         fill_metacache txn_log_path (TxnLogValue txn_log)
                                           (mgr\<lparr>fs := fs2\<rparr>)
                                   in (OK, mgr1)))))))"

definition delete_txn_log :: "int \<Rightarrow> int \<Rightarrow> TabletManager \<Rightarrow> Status \<times> TabletManager" where
  "delete_txn_log tablet txn mgr =
    (let loc = txn_log_location tablet txn;
         mgr1 = erase_metacache loc mgr;
         (st, fs1) = delete_file loc (fs mgr1)
     in (st, mgr1\<lparr>fs := fs1\<rparr>))"

section \<open>Lake tablet manager: publish\<close>

text \<open>
  Modelled from the spec: the class \<^verbatim>\<open>Tablet\<close> is not among the sources. A tablet is a
  manager and a tablet id; \<^verbatim>\<open>get_metadata\<close>, \<^verbatim>\<open>get_txn_log\<close>, \<^verbatim>\<open>put_metadata\<close> and
  \<^verbatim>\<open>delete_txn_log\<close> are the four operations of the manager that the publish protocol of
  the specification names, for that id.
\<close>

definition tablet_get_metadata ::
  "int \<Rightarrow> int \<Rightarrow> TabletManager \<Rightarrow> (Status + TabletMetadata) \<times> TabletManager" where
  "tablet_get_metadata tablet v mgr = get_tablet_metadata tablet v mgr"

definition tablet_get_txn_log ::
  "int \<Rightarrow> int \<Rightarrow> TabletManager \<Rightarrow> (Status + TxnLog) \<times> TabletManager" where
  "tablet_get_txn_log tablet txn mgr = get_txn_log tablet txn mgr"

definition tablet_put_metadata :: "TabletMetadata \<Rightarrow> TabletManager \<Rightarrow> Status \<times> TabletManager" where
  "tablet_put_metadata metadata mgr = put_tablet_metadata metadata mgr"

definition tablet_delete_txn_log :: "int \<Rightarrow> int \<Rightarrow> TabletManager \<Rightarrow> Status \<times> TabletManager" where
  "tablet_delete_txn_log tablet txn mgr = delete_txn_log tablet txn mgr"

text \<open>\<^verbatim>\<open>StatusOr::ok()\<close>.\<close>

definition has_value :: "Status + 'a \<Rightarrow> bool" where
  "has_value res = (case res of Inl st \<Rightarrow> False | Inr x \<Rightarrow> True)"

text \<open>
  The loop of \<^verbatim>\<open>publish\<close> that applies the logs. It yields \<open>Some (Inl st)\<close> when
  \<^verbatim>\<open>publish\<close> returns \<open>st\<close> from inside the loop, \<open>Some (Inr metadata)\<close> when the loop
  runs to its end, and \<open>None\<close> when applying a log has no defined result.
\<close>

fun apply_txn_logs ::
  "int \<Rightarrow> int \<Rightarrow> int list \<Rightarrow> TabletMetadata \<Rightarrow> TabletManager
     \<Rightarrow> (Status + TabletMetadata) option \<times> TabletManager" where
  "apply_txn_logs tablet new_version [] new_metadata mgr = (Some (Inr new_metadata), mgr)"
| "apply_txn_logs tablet new_version (txnid # txns) new_metadata mgr =
    (let (txnlog, mgr1) = tablet_get_txn_log tablet txnid mgr
     in case txnlog of
          Inl st \<Rightarrow>
            if is_not_found st then
              (let (res, mgr2) = tablet_get_metadata tablet new_version mgr1
               in if has_value res then (Some (Inl OK), mgr2) else (Some (Inl st), mgr2))
            else (Some (Inl st), mgr1)
        | Inr l \<Rightarrow>
            (case apply_txn_log l new_metadata of
               None \<Rightarrow> (None, mgr1)
             | Some (st, metadata1) \<Rightarrow>
                 if \<not> ok st then (Some (Inl st), mgr1)
                 else apply_txn_logs tablet new_version txns metadata1 mgr1))"

text \<open>The loop that deletes the logs; the status of a delete is only logged.\<close>

fun delete_txn_logs :: "int \<Rightarrow> int list \<Rightarrow> TabletManager \<Rightarrow> TabletManager" where
  "delete_txn_logs tablet [] mgr = mgr"
| "delete_txn_logs tablet (txn_id # txns) mgr =
    delete_txn_logs tablet txns (snd (tablet_delete_txn_log tablet txn_id mgr))"

text \<open>
  \<^verbatim>\<open>publish(tablet, base_version, new_version, txns, txns_size)\<close>: the status returned
  (\<open>None\<close> when applying a log has no defined result) and the manager afterwards.
\<close>

definition publish ::
  "int \<Rightarrow> int \<Rightarrow> int \<Rightarrow> int list \<Rightarrow> TabletManager \<Rightarrow> Status option \<times> TabletManager" where
  "publish tablet base_version new_version txns mgr =
    (let (res, mgr1) = tablet_get_metadata tablet base_version mgr
     in case res of
          Inl st \<Rightarrow>
            if is_not_found st then
              (let (res2, mgr2) = tablet_get_metadata tablet new_version mgr1
               in if has_value res2 then (Some OK, mgr2) else (Some st, mgr2))
            else (Some st, mgr1)
        | Inr base_metadata \<Rightarrow>
            (let new_metadata = base_metadata\<lparr>version := new_version\<rparr>;
                 (flow, mgr2) = apply_txn_logs tablet new_version txns new_metadata mgr1
             in case flow of
                  None \<Rightarrow> (None, mgr2)
                | Some (Inl st) \<Rightarrow> (Some st, mgr2)
                | Some (Inr metadata) \<Rightarrow>
                    (let (st, mgr3) = tablet_put_metadata metadata mgr2
                     in if \<not> ok st then (Some st, mgr3)
                        else (Some OK, delete_txn_logs tablet txns mgr3))))"

section \<open>Lake tablet manager: what a reader observes\<close>

text \<open>
  What \<^verbatim>\<open>get_tablet_metadata\<close> and \<^verbatim>\<open>get_txn_log\<close> return for a path, as a function
  of the cache and the file system: the cached value if there is one, and the outcome of
  loading the object otherwise. \<open>reads_only mgr mgr1\<close> says that \<open>mgr1\<close> differs from
  \<open>mgr\<close> by reads alone: the objects, the failing paths and the writes asked of the file
  system are the same, every path reads as before, and no cached metadata was replaced.
\<close>

definition metadata_view :: "TabletManager \<Rightarrow> location \<Rightarrow> Status + TabletMetadata" where
  "metadata_view mgr key =
    (case lookup_tablet_metadata key mgr of
       Some m \<Rightarrow> Inr m
     | None \<Rightarrow>
         if key \<in> unreadable (fs mgr) then Inl IOError
         else (case files (fs mgr) key of
                 None \<Rightarrow> Inl NotFound
               | Some (MetadataFile m) \<Rightarrow> Inr m
               | Some other \<Rightarrow> Inl Corruption))"

definition txn_log_view :: "TabletManager \<Rightarrow> location \<Rightarrow> Status + TxnLog" where
  "txn_log_view mgr key =
    (case lookup_txn_log key mgr of
       Some l \<Rightarrow> Inr l
     | None \<Rightarrow>
         if key \<in> unreadable (fs mgr) then Inl IOError
         else (case files (fs mgr) key of
                 None \<Rightarrow> Inl NotFound
               | Some (TxnLogFile l) \<Rightarrow> Inr l
               | Some other \<Rightarrow> Inl Corruption))"

definition reads_only :: "TabletManager \<Rightarrow> TabletManager \<Rightarrow> bool" where
  "reads_only mgr mgr1 =
    (files (fs mgr1) = files (fs mgr)
     \<and> unreadable (fs mgr1) = unreadable (fs mgr)
     \<and> open_fails (fs mgr1) = open_fails (fs mgr)
     \<and> append_fails (fs mgr1) = append_fails (fs mgr)
     \<and> close_fails (fs mgr1) = close_fails (fs mgr)
     \<and> delete_fails (fs mgr1) = delete_fails (fs mgr)
     \<and> refused (metacache mgr1) = refused (metacache mgr)
     \<and> fill_cache_default mgr1 = fill_cache_default mgr
     \<and> writes (fs_log (fs mgr1)) = writes (fs_log (fs mgr))
     \<and> (\<forall>tablet v. metadata_view mgr1 (TabletMetadataLocation tablet v)
                     = metadata_view mgr (TabletMetadataLocation tablet v))
     \<and> (\<forall>tablet txn. txn_log_view mgr1 (TxnLogLocation tablet txn)
                       = txn_log_view mgr (TxnLogLocation tablet txn))
     \<and> (\<forall>tablet v m.
           entries (metacache mgr) (TabletMetadataLocation tablet v) = Some (MetadataValue m)
           \<longrightarrow> entries (metacache mgr1) (TabletMetadataLocation tablet v)
                 = Some (MetadataValue m)))"

section \<open>Priority aging: properties\<close>

lemma compute_priority_step:
  "compute_priority (n + 1) =
     (if n + 1 \<in> set priority_thresholds then compute_priority n - 1 else compute_priority n)"
  unfolding compute_priority_def priority_thresholds_def by simp

lemma compute_priority_antimono_aux:
  "compute_priority (m + int k) \<le> compute_priority m"
proof (induction k)
  case 0
  show ?case by simp
next
  case (Suc k)
  have "compute_priority (m + int (Suc k)) = compute_priority ((m + int k) + 1)"
    by (simp add: algebra_simps)
  also have "\<dots> \<le> compute_priority (m + int k)"
    by (simp add: compute_priority_step)
  finally show ?case using Suc.IH by linarith
qed

lemma compute_priority_antimono:
  assumes "m \<le> n"
  shows "compute_priority n \<le> compute_priority m"
proof -
  have "n = m + int (nat (n - m))" using assms by simp
  then show ?thesis using compute_priority_antimono_aux [of m "nat (n - m)"] by simp
qed

lemma compute_priority_range: "0 \<le> compute_priority n \<and> compute_priority n \<le> 20"
  unfolding compute_priority_def by simp

lemma compute_priority_count:
  "compute_priority n = 20 - int (length (filter (\<lambda>t. t \<le> n) priority_thresholds))"
  unfolding compute_priority_def priority_thresholds_def by simp

text \<open>
  Claim C5. \<open>compute_priority\<close> is non-increasing in the number of submitted tasks, its
  value lies between 0 and 20, and it steps down from 20 to 0 exactly at the twenty
  listed thresholds: the value is 20 minus the number of thresholds already reached,
  so it drops by one when the count arrives at a threshold and nowhere else, it is 20
  below the first threshold and 0 from the last one on.
\<close>

theorem compute_priority_aging:
  "(\<forall>m n. m \<le> n \<longrightarrow> compute_priority n \<le> compute_priority m)
   \<and> (\<forall>n. 0 \<le> compute_priority n \<and> compute_priority n \<le> 20)
   \<and> (\<forall>n. compute_priority n =
          20 - int (length (filter (\<lambda>t. t \<le> n) priority_thresholds)))
   \<and> (\<forall>n. compute_priority (n + 1) =
          (if n + 1 \<in> set priority_thresholds then compute_priority n - 1
           else compute_priority n))
   \<and> (\<forall>n. n < 5 \<longrightarrow> compute_priority n = 20)
   \<and> (\<forall>n. 2395 \<le> n \<longrightarrow> compute_priority n = 0)"
proof (intro conjI allI impI)
  fix m n :: int
  assume "m \<le> n"
  then show "compute_priority n \<le> compute_priority m"
    by (rule compute_priority_antimono)
next
  fix n :: int
  show "0 \<le> compute_priority n" using compute_priority_range by simp
  show "compute_priority n \<le> 20" using compute_priority_range by simp
  show "compute_priority n = 20 - int (length (filter (\<lambda>t. t \<le> n) priority_thresholds))"
    by (rule compute_priority_count)
  show "compute_priority (n + 1) =
          (if n + 1 \<in> set priority_thresholds then compute_priority n - 1
           else compute_priority n)"
    by (rule compute_priority_step)
next
  fix n :: int
  assume "n < 5"
  then show "compute_priority n = 20" by (simp add: compute_priority_def)
next
  fix n :: int
  assume "2395 \<le> n"
  then show "compute_priority n = 0" by (simp add: compute_priority_def)
qed

theorem compute_priority_aging_witness:
  "(600::int) \<le> 601 \<and> compute_priority 601 \<le> compute_priority 600
   \<and> compute_priority 600 = 10 \<and> compute_priority 594 = 11 \<and> compute_priority 595 = 10
   \<and> compute_priority 4 = 20 \<and> compute_priority 5 = 19
   \<and> compute_priority 2394 = 1 \<and> compute_priority 2395 = 0"
proof -
  have "\<forall>m n. m \<le> n \<longrightarrow> compute_priority n \<le> compute_priority m"
    using compute_priority_aging by (rule conjunct1)
  then have mono: "compute_priority 601 \<le> compute_priority 600"
    by (elim allE [of _ 600] allE [of _ 601]) simp
  have vals: "compute_priority 600 = 10" "compute_priority 594 = 11"
    "compute_priority 595 = 10" "compute_priority 4 = 20" "compute_priority 5 = 19"
    "compute_priority 2394 = 1" "compute_priority 2395 = 0"
    by (simp_all add: compute_priority_def)
  show ?thesis using mono vals by simp
qed

section \<open>Applying transaction logs: properties\<close>

lemma apply_write_log_ok: "fst (apply_write_log opw md) = OK"
  by (simp add: apply_write_log_def Let_def split: option.splits)

lemma apply_write_log_eq: "apply_write_log opw md = (OK, snd (apply_write_log opw md))"
  using apply_write_log_ok [of opw md] by (cases "apply_write_log opw md") simp

lemma apply_txn_log_unfold:
  "apply_txn_log l md =
    (case (case op_compaction l of
             None \<Rightarrow> Some (OK, case op_write l of None \<Rightarrow> md | Some w \<Rightarrow> snd (apply_write_log w md))
           | Some c \<Rightarrow>
               apply_compaction_log c
                 (case op_write l of None \<Rightarrow> md | Some w \<Rightarrow> snd (apply_write_log w md))) of
       None \<Rightarrow> None
     | Some (st2, md2) \<Rightarrow>
         if st2 \<noteq> OK then Some (st2, md2)
         else if op_schema_change l \<noteq> None then Some (NotSupported, md2)
         else Some (OK, md2))"
proof (cases "op_write l")
  case None
  then show ?thesis by (simp add: apply_txn_log_def ok_def split: option.splits prod.splits)
next
  case (Some w)
  then show ?thesis
    by (subst apply_txn_log_def, subst apply_write_log_eq)
      (simp add: ok_def split: option.splits prod.splits)
qed

text \<open>
  Claim C3. When the write log carries a rowset with \<open>num_rows > 0\<close>,
  \<open>apply_write_log\<close> appends that rowset to the rowsets of the metadata, with its id
  set to the current \<open>next_rowset_id\<close>, and advances \<open>next_rowset_id\<close> by the number of
  segments of the rowset. When the log carries no rowset, or one with no rows, the
  metadata is unchanged. Hence two write logs, each with a rowset of two segments, give
  rowsets with the ids \<open>base\<close> and \<open>base + 2\<close> and leave \<open>next_rowset_id = base + 4\<close>.
  The status is \<open>OK\<close> every time.
\<close>

theorem apply_write_log_appends:
  "(\<forall>r. rowset opw = Some r \<and> num_rows r > 0 \<longrightarrow>
      apply_write_log opw md =
        (OK, md\<lparr>next_rowset_id := next_rowset_id md + of_nat (length (segments r)),
                 rowsets := rowsets md @ [r\<lparr>rowset_id := next_rowset_id md\<rparr>]\<rparr>))
   \<and> (rowset opw = None \<longrightarrow> apply_write_log opw md = (OK, md))
   \<and> (\<forall>r. rowset opw = Some r \<and> num_rows r \<le> 0 \<longrightarrow> apply_write_log opw md = (OK, md))
   \<and> (\<forall>w1 w2 r1 r2.
        rowset w1 = Some r1 \<and> num_rows r1 > 0 \<and> length (segments r1) = 2 \<and>
        rowset w2 = Some r2 \<and> num_rows r2 > 0 \<and> length (segments r2) = 2 \<longrightarrow>
        apply_write_log w2 (snd (apply_write_log w1 md)) =
          (OK, md\<lparr>next_rowset_id := next_rowset_id md + 4,
                   rowsets := rowsets md @ [r1\<lparr>rowset_id := next_rowset_id md\<rparr>,
                                            r2\<lparr>rowset_id := next_rowset_id md + 2\<rparr>]\<rparr>))"
  by (simp add: apply_write_log_def segments_size_def Let_def)

theorem apply_write_log_appends_witness:
  "apply_write_log
      \<lparr>rowset = Some \<lparr>rowset_id = 0, segments = [''c'', ''d''], num_rows = 5\<rparr>\<rparr>
      (snd (apply_write_log
         \<lparr>rowset = Some \<lparr>rowset_id = 0, segments = [''a'', ''b''], num_rows = 8\<rparr>\<rparr>
         \<lparr>tablet_id = 7, version = 6, next_rowset_id = 10, rowsets = []\<rparr>))
   = (OK, \<lparr>tablet_id = 7, version = 6, next_rowset_id = 14,
          rowsets = [\<lparr>rowset_id = 10, segments = [''a'', ''b''], num_rows = 8\<rparr>,
                     \<lparr>rowset_id = 12, segments = [''c'', ''d''], num_rows = 5\<rparr>]\<rparr>)"
proof -
  let ?md = "\<lparr>tablet_id = 7, version = 6, next_rowset_id = 10, rowsets = []\<rparr>"
  have "\<forall>w1 w2 r1 r2.
        rowset w1 = Some r1 \<and> num_rows r1 > 0 \<and> length (segments r1) = 2 \<and>
        rowset w2 = Some r2 \<and> num_rows r2 > 0 \<and> length (segments r2) = 2 \<longrightarrow>
        apply_write_log w2 (snd (apply_write_log w1 ?md)) =
          (OK, ?md\<lparr>next_rowset_id := next_rowset_id ?md + 4,
                   rowsets := rowsets ?md @ [r1\<lparr>rowset_id := next_rowset_id ?md\<rparr>,
                                            r2\<lparr>rowset_id := next_rowset_id ?md + 2\<rparr>]\<rparr>)"
    using apply_write_log_appends [of _ ?md] by blast
  from this [rule_format,
      of "\<lparr>rowset = Some \<lparr>rowset_id = 0, segments = [''a'', ''b''], num_rows = 8\<rparr>\<rparr>"
         "\<lparr>rowset_id = 0, segments = [''a'', ''b''], num_rows = 8\<rparr>"
         "\<lparr>rowset = Some \<lparr>rowset_id = 0, segments = [''c'', ''d''], num_rows = 5\<rparr>\<rparr>"
         "\<lparr>rowset_id = 0, segments = [''c'', ''d''], num_rows = 5\<rparr>"]
  show ?thesis by simp
qed

text \<open>
  Claim C2, which requires every compaction input to be present and adjacent for the
  call to succeed. The metadata below has the single rowset 1 and the log names the
  inputs 1 and 2. The loop bound is the number of rowsets of the metadata, 1, so the
  second input is never looked up: the call returns \<open>OK\<close> and erases rowset 1,
  although input 2 is missing.
\<close>

theorem apply_compaction_log_missing_input:
  "apply_compaction_log \<lparr>input_rowsets = [1, 2], output_rowset = None\<rparr>
     \<lparr>tablet_id = 7, version = 5, next_rowset_id = 2,
      rowsets = [\<lparr>rowset_id = 1, segments = [''a''], num_rows = 10\<rparr>]\<rparr>
   = Some (OK, \<lparr>tablet_id = 7, version = 5, next_rowset_id = 2, rowsets = []\<rparr>)"
  by (simp add: apply_compaction_log_def find_if_def Finder_def erase_def)

text \<open>
  The same bound makes the loop read past the inputs when the metadata has more rowsets
  than the log has inputs and the inputs are adjacent: here rowsets 1 to 4, inputs 1 and 2.
\<close>

lemma apply_compaction_log_reads_past_inputs:
  "apply_compaction_log \<lparr>input_rowsets = [1, 2], output_rowset = None\<rparr>
     \<lparr>tablet_id = 7, version = 5, next_rowset_id = 5,
      rowsets = [\<lparr>rowset_id = 1, segments = [''a''], num_rows = 10\<rparr>,
                 \<lparr>rowset_id = 2, segments = [''b''], num_rows = 10\<rparr>,
                 \<lparr>rowset_id = 3, segments = [''c''], num_rows = 10\<rparr>,
                 \<lparr>rowset_id = 4, segments = [''d''], num_rows = 10\<rparr>]\<rparr>
   = None"
  by (simp add: apply_compaction_log_def find_if_def Finder_def)

text \<open>The sixth scenario of the specification: rowsets 1 to 4, inputs 1 and 3.\<close>

lemma apply_compaction_log_not_adjacent:
  "apply_compaction_log \<lparr>input_rowsets = [1, 3], output_rowset = None\<rparr>
     \<lparr>tablet_id = 7, version = 5, next_rowset_id = 5,
      rowsets = [\<lparr>rowset_id = 1, segments = [''a''], num_rows = 10\<rparr>,
                 \<lparr>rowset_id = 2, segments = [''b''], num_rows = 10\<rparr>,
                 \<lparr>rowset_id = 3, segments = [''c''], num_rows = 10\<rparr>,
                 \<lparr>rowset_id = 4, segments = [''d''], num_rows = 10\<rparr>]\<rparr>
   = Some (InternalError,
       \<lparr>tablet_id = 7, version = 5, next_rowset_id = 5,
        rowsets = [\<lparr>rowset_id = 1, segments = [''a''], num_rows = 10\<rparr>,
                   \<lparr>rowset_id = 2, segments = [''b''], num_rows = 10\<rparr>,
                   \<lparr>rowset_id = 3, segments = [''c''], num_rows = 10\<rparr>,
                   \<lparr>rowset_id = 4, segments = [''d''], num_rows = 10\<rparr>]\<rparr>)"
  by (simp add: apply_compaction_log_def find_if_def Finder_def)







text \<open>
  A log whose write part carries a rowset of no rows, and a schema change: the call
  returns \<open>NotSupported\<close> and the metadata is as it was.
\<close>

lemma apply_txn_log_zero_row_write:
  "apply_txn_log
     \<lparr>log_tablet_id = Some 7, log_txn_id = Some 100,
      op_write = Some \<lparr>rowset = Some \<lparr>rowset_id = 0, segments = [], num_rows = 0\<rparr>\<rparr>,
      op_compaction = None, op_schema_change = Some OpSchemaChange\<rparr>
     \<lparr>tablet_id = 7, version = 6, next_rowset_id = 1, rowsets = []\<rparr>
   = Some (NotSupported, \<lparr>tablet_id = 7, version = 6, next_rowset_id = 1, rowsets = []\<rparr>)"
  by (simp add: apply_txn_log_def apply_write_log_def ok_def)

section \<open>Scanners: properties\<close>

lemma opened_update [simp]:
  "opened (sc\<lparr>pending_token := b\<rparr>) = opened sc"
  "opened (sc\<lparr>keep_priority := b\<rparr>) = opened sc"
  by (simp_all add: opened_def)

lemma map_opened_update:
  "opened sc = opened (scs ! j) \<Longrightarrow> map opened (scs[j := sc]) = map opened scs"
  by (auto simp: list_eq_iff_nth_eq) (metis nth_list_update_eq nth_list_update_neq)

lemma map_opened_update_ge:
  "\<not> j < length scs \<Longrightarrow> map opened (scs[j := sc]) = map opened scs"
  by (simp add: list_update_beyond)

lemma acquire_pending_token_opened:
  "acquire_pending_token sc token = (res, sc1, token1) \<Longrightarrow> opened sc1 = opened sc"
  by (auto simp: acquire_pending_token_def atomic_cas_def compare_exchange_strong_def Let_def
      split: if_splits prod.splits)

lemma release_pending_token_opened:
  "release_pending_token sc token = (res, sc1, token1) \<Longrightarrow> opened sc1 = opened sc"
  by (auto simp: release_pending_token_def split: if_splits)

lemma scanner_acquire_pending_token_frame:
  "map opened (scanners (scanner_acquire_pending_token j node)) = map opened (scanners node)"
  "thread_pool (scanner_acquire_pending_token j node) = thread_pool node"
proof -
  obtain res sc token where
    a: "acquire_pending_token (scanners node ! j) (pending_token_slot node) = (res, sc, token)"
    by (cases "acquire_pending_token (scanners node ! j) (pending_token_slot node)") auto
  show "map opened (scanners (scanner_acquire_pending_token j node)) = map opened (scanners node)"
    using a acquire_pending_token_opened [OF a]
    by (simp add: scanner_acquire_pending_token_def map_opened_update)
  show "thread_pool (scanner_acquire_pending_token j node) = thread_pool node"
    using a by (simp add: scanner_acquire_pending_token_def)
qed

lemma scanner_release_pending_token_frame:
  "map opened (scanners (scanner_release_pending_token j node)) = map opened (scanners node)"
  "thread_pool (scanner_release_pending_token j node) = thread_pool node"
proof -
  obtain res sc token where
    a: "release_pending_token (scanners node ! j) (pending_token_slot node) = (res, sc, token)"
    by (cases "release_pending_token (scanners node ! j) (pending_token_slot node)") auto
  show "map opened (scanners (scanner_release_pending_token j node)) = map opened (scanners node)"
    using a release_pending_token_opened [OF a]
    by (simp add: scanner_release_pending_token_def map_opened_update)
  show "thread_pool (scanner_release_pending_token j node) = thread_pool node"
    using a by (simp add: scanner_release_pending_token_def)
qed

lemma update_status_frame:
  "scanners (update_status st node) = scanners node"
  "thread_pool (update_status st node) = thread_pool node"
  by (simp_all add: update_status_def)

lemma submit_scanner_frame:
  assumes "submit_scanner node j blockable = (submitted, node1, events)"
  shows "scanners node1 = scanners node"
    and "map task_scanner (accepted (thread_pool node1))
         = map task_scanner (accepted (thread_pool node)) @ (if submitted then [j] else [])"
    and "blockable \<Longrightarrow> submitted"
  using assms
  by (auto simp: submit_scanner_def try_offer_def offer_def Let_def split: if_splits prod.splits)

lemma submit_pending_scanners_frame:
  "submit_pending_scanners need_put pending node = (pending1, node1) \<Longrightarrow>
   scanners node1 = scanners node
   \<and> count_list (map task_scanner (accepted (thread_pool node1))) i + count_list pending1 i
     \<le> count_list (map task_scanner (accepted (thread_pool node))) i + count_list pending i"
proof (induction need_put pending node rule: submit_pending_scanners.induct)
  case (1 need_put node)
  then show ?case by simp
next
  case (2 need_put scanner rest node)
  show ?case
  proof (cases "need_put > 0")
    case False
    then show ?thesis using 2(2) by simp
  next
    case True
    obtain submitted node2 events where
      sub: "submit_scanner node scanner False = (submitted, node2, events)"
      by (cases "submit_scanner node scanner False") auto
    note fr = submit_scanner_frame(1,2) [OF sub]
    show ?thesis
    proof (cases submitted)
      case False
      then have "pending1 = rest" "node1 = node2" using 2(2) True sub by simp_all
      then show ?thesis using fr False by simp
    next
      case s: True
      then have "submit_pending_scanners (need_put - 1) rest node2 = (pending1, node1)"
        using 2(2) True sub by simp
      from 2(1) [OF True refl sub [symmetric] refl _ this] s
      have "scanners node1 = scanners node2
        \<and> count_list (map task_scanner (accepted (thread_pool node1))) i + count_list pending1 i
          \<le> count_list (map task_scanner (accepted (thread_pool node2))) i + count_list rest i"
        by simp
      then show ?thesis using fr s by auto
    qed
  qed
qed

lemma close_pending_loop_frame:
  "scan_node (close_pending_loop xs s) = scan_node s"
  "pending_scanners (close_pending_loop xs s) = (if xs = [] then pending_scanners s else [])"
  by (induction xs arbitrary: s) (simp_all add: ConnectorScanner_close_def)

lemma close_pending_scanners_frame:
  "scan_node (close_pending_scanners s) = scan_node s"
  "pending_scanners (close_pending_scanners s) = []"
  by (simp_all add: close_pending_scanners_def close_pending_loop_frame)

lemma release_scanner_frame:
  "map opened (scanners (scan_node (release_scanner j s))) = map opened (scanners (scan_node s))"
  "thread_pool (scan_node (release_scanner j s)) = thread_pool (scan_node s)"
  "pending_scanners (release_scanner j s) = []"
  by (simp_all add: release_scanner_def Let_def close_pending_scanners_frame
      ConnectorScanner_close_def scanner_release_pending_token_frame)

lemma release_scanner_queued:
  "queued_count i (release_scanner j s) \<le> queued_count i s"
  by (simp add: queued_count_def release_scanner_frame)

lemma push_pending_scanner_frame:
  "scan_node (push_pending_scanner j s) = scan_node s"
  "queued_count i (push_pending_scanner j s) = queued_count i s + (if i = j then 1 else 0)"
  by (simp_all add: push_pending_scanner_def queued_count_def)

lemma scanner_thread_open_cases:
  "\<exists>s3. map opened (scanners (scan_node s3)) = map opened (scanners (scan_node s))
      \<and> (\<forall>i. queued_count i s3 \<le> queued_count i s)
      \<and> (scanner_thread_open env j s = Inl (release_scanner j s3)
         \<or> scanner_thread_open env j s = Inl (push_pending_scanner j s3)
         \<or> scanner_thread_open env j s =
             Inr (fst (ConnectorScanner_open (scanners (scan_node s3) ! j)),
                  s3\<lparr>scan_node := (scan_node s3)\<lparr>scanners := (scanners (scan_node s3))
                    [j := (snd (ConnectorScanner_open (scanners (scan_node s3) ! j)))
                            \<lparr>keep_priority := False\<rparr>]\<rparr>\<rparr>))"
proof -
  define s1 where "s1 = s\<lparr>scan_node := update_status (worker_status_begin env) (scan_node s)\<rparr>"
  define s2 where "s2 =
    (if has_pending_token (scanners (scan_node s1) ! j) then
       (let concurrency = min (max_hdfs_scanner_num env) (num_scanners s1);
            need_put = concurrency - sint (running_threads (scan_node s1));
            left_resource = max_hdfs_file_handle env - open_limit_yield env
        in if left_resource > 0 then
             (let (pending, node1) =
                    submit_pending_scanners (min left_resource need_put)
                      (pending_scanners s1) (scan_node s1)
              in s1\<lparr>scan_node := node1, pending_scanners := pending\<rparr>)
           else s1)
     else s1)"
  define s3 where "s3 =
    (if \<not> has_pending_token (scanners (scan_node s2) ! j)
     then s2\<lparr>scan_node := scanner_acquire_pending_token j (scan_node s2)\<rparr>
     else s2)"
  have unfold: "scanner_thread_open env j s =
    (if \<not> ok (status (scan_node s1)) then Inl (release_scanner j s1)
     else if \<not> is_open (scanners (scan_node s3) ! j)
             \<and> open_limit_admission env > max_hdfs_file_handle env
             \<and> \<not> has_pending_token (scanners (scan_node s3) ! j)
     then Inl (push_pending_scanner j s3)
     else Inr (fst (ConnectorScanner_open (scanners (scan_node s3) ! j)),
               s3\<lparr>scan_node := (scan_node s3)\<lparr>scanners := (scanners (scan_node s3))
                 [j := (snd (ConnectorScanner_open (scanners (scan_node s3) ! j)))
                         \<lparr>keep_priority := False\<rparr>]\<rparr>\<rparr>))"
    unfolding scanner_thread_open_def s1_def [symmetric] Let_def s2_def [symmetric, unfolded Let_def]
      s3_def [symmetric]
    by (simp add: case_prod_beta)
  have f1: "map opened (scanners (scan_node s1)) = map opened (scanners (scan_node s))"
    "\<And>i. queued_count i s1 = queued_count i s"
    by (simp_all add: s1_def update_status_frame queued_count_def)
  have f2: "scanners (scan_node s2) = scanners (scan_node s1)
    \<and> (\<forall>i. queued_count i s2 \<le> queued_count i s1)"
  proof (cases "has_pending_token (scanners (scan_node s1) ! j)
      \<and> max_hdfs_file_handle env - open_limit_yield env > 0")
    case False
    then have "s2 = s1" by (auto simp: s2_def Let_def)
    then show ?thesis by simp
  next
    case True
    let ?np = "min (max_hdfs_file_handle env - open_limit_yield env)
        (min (max_hdfs_scanner_num env) (num_scanners s1) - sint (running_threads (scan_node s1)))"
    obtain pending node1 where
      sp: "submit_pending_scanners ?np (pending_scanners s1) (scan_node s1) = (pending, node1)"
      by (cases "submit_pending_scanners ?np (pending_scanners s1) (scan_node s1)") auto
    have "s2 = s1\<lparr>scan_node := node1, pending_scanners := pending\<rparr>"
      using True sp by (simp add: s2_def Let_def)
    then show ?thesis
      using submit_pending_scanners_frame [OF sp] by (simp add: queued_count_def)
  qed
  have f3: "map opened (scanners (scan_node s3)) = map opened (scanners (scan_node s2))"
    "\<And>i. queued_count i s3 = queued_count i s2"
    by (simp_all add: s3_def scanner_acquire_pending_token_frame queued_count_def)
  have g1: "\<forall>i. queued_count i s1 \<le> queued_count i s" using f1 by simp
  have g3: "map opened (scanners (scan_node s3)) = map opened (scanners (scan_node s))"
    "\<forall>i. queued_count i s3 \<le> queued_count i s"
    using f1 f2 f3 by simp_all
  show ?thesis
  proof (cases "\<not> ok (status (scan_node s1))")
    case True
    then have "scanner_thread_open env j s = Inl (release_scanner j s1)"
      using unfold by simp
    then show ?thesis using f1(1) g1 by blast
  next
    case False
    then have "scanner_thread_open env j s = Inl (push_pending_scanner j s3)
      \<or> scanner_thread_open env j s =
             Inr (fst (ConnectorScanner_open (scanners (scan_node s3) ! j)),
                  s3\<lparr>scan_node := (scan_node s3)\<lparr>scanners := (scanners (scan_node s3))
                    [j := (snd (ConnectorScanner_open (scanners (scan_node s3) ! j)))
                            \<lparr>keep_priority := False\<rparr>]\<rparr>\<rparr>)"
      using unfold by simp
    then show ?thesis using g3 by blast
  qed
qed

lemma produce_loop_frame:
  "produce_loop envs j st s = Some (st1, resubmit, owned, s1) \<Longrightarrow>
   map opened (scanners (scan_node s1)) = map opened (scanners (scan_node s))
   \<and> thread_pool (scan_node s1) = thread_pool (scan_node s)
   \<and> pending_scanners s1 = (if owned then pending_scanners s else j # pending_scanners s)
   \<and> (resubmit \<longrightarrow> owned)
   \<and> (resubmit \<or> \<not> owned \<longrightarrow> ok st)"
proof (induction envs arbitrary: st s)
  case Nil
  then show ?case by (simp split: if_splits)
next
  case (Cons e rest)
  define s2 where "s2 = s\<lparr>scan_node := update_status (worker_status_loop e) (scan_node s)\<rparr>"
  have f2: "map opened (scanners (scan_node s2)) = map opened (scanners (scan_node s))"
    "thread_pool (scan_node s2) = thread_pool (scan_node s)"
    "pending_scanners s2 = pending_scanners s"
    by (simp_all add: s2_def update_status_frame)
  show ?case
  proof (cases "ok st \<and> ok (status (scan_node s2)) \<and> \<not> chunk_pool_empty e \<and> ok (get_next_status e)
      \<and> put_result e \<and> \<not> (limit (scan_node s2) \<noteq> - 1 \<and> num_rows_read e \<ge> limit (scan_node s2))
      \<and> \<not> raw_rows_threshold_reached e")
    case True
    then have "produce_loop rest j (get_next_status e) s2 = Some (st1, resubmit, owned, s1)"
      using Cons.prems by (auto simp: s2_def Let_def split: if_splits)
    from Cons.IH [OF this] show ?thesis using f2 True by simp
  next
    case False
    show ?thesis
    proof (cases "ok st \<and> ok (status (scan_node s2)) \<and> chunk_pool_empty e")
      case True
      then have "s1 = push_pending_scanner j (s2\<lparr>scan_node :=
          scanner_release_pending_token j ((scan_node s2)\<lparr>scanners :=
            (scanners (scan_node s2))
              [j := (scanners (scan_node s2) ! j)\<lparr>keep_priority := True\<rparr>]\<rparr>)\<rparr>)"
        and "\<not> owned" and "\<not> resubmit"
        using Cons.prems by (simp_all add: s2_def Let_def)
      then show ?thesis
        using f2 True
        by (simp add: push_pending_scanner_def scanner_release_pending_token_frame
            map_opened_update)
    next
      case nc: False
      then have "s1 = s2 \<or> s1 = s" and "owned" and "resubmit \<longrightarrow> ok st"
        using Cons.prems False
        by (auto simp: s2_def Let_def split: if_splits)
      then show ?thesis using f2 by auto
    qed
  qed
qed

lemma scanner_thread_exit_frame:
  "scanners (scan_node (scanner_thread_exit s)) = scanners (scan_node s)"
  "queued_count i (scanner_thread_exit s) = queued_count i s"
  by (simp_all add: scanner_thread_exit_def queued_count_def Let_def)

lemma scanner_thread_finish_frame:
  assumes "scanner_thread_finish env j (st, resubmit, owned, s) = s1"
  shows "map opened (scanners (scan_node s1)) = map opened (scanners (scan_node s))
   \<and> queued_count i s1 \<le> queued_count i s + (if i = j \<and> ok st \<and> resubmit then 1 else 0)"
proof -
  define s2 where "s2 = s\<lparr>scan_node := update_status (worker_status_end env) (scan_node s)\<rparr>"
  have f2: "map opened (scanners (scan_node s2)) = map opened (scanners (scan_node s))"
    "queued_count i s2 = queued_count i s"
    by (simp_all add: s2_def update_status_frame queued_count_def)
  consider (resubmit) "ok (status (scan_node s2))" "ok st" "resubmit"
    | (handed) "ok (status (scan_node s2))" "ok st" "\<not> resubmit"
    | (eof) "ok (status (scan_node s2))" "\<not> ok st" "is_end_of_file st"
    | (failed) "ok (status (scan_node s2))" "\<not> ok st" "\<not> is_end_of_file st"
    | (cancelled) "\<not> ok (status (scan_node s2))"
    by blast
  then have "map opened (scanners (scan_node s1)) = map opened (scanners (scan_node s2))
   \<and> queued_count i s1 \<le> queued_count i s2 + (if i = j \<and> ok st \<and> resubmit then 1 else 0)"
  proof cases
    case resubmit
    obtain submitted node1 events where
      sub: "submit_scanner (scan_node s2) j False = (submitted, node1, events)"
      by (cases "submit_scanner (scan_node s2) j False") auto
    note fr = submit_scanner_frame(1,2) [OF sub]
    show ?thesis
    proof (cases submitted)
      case True
      then have "s1 = s2\<lparr>scan_node := node1\<rparr>"
        using assms resubmit sub by (simp add: scanner_thread_finish_def s2_def Let_def)
      then show ?thesis using fr True resubmit by (simp add: queued_count_def)
    next
      case False
      then have "s1 = push_pending_scanner j
          (s2\<lparr>scan_node := scanner_release_pending_token j node1\<rparr>)"
        using assms resubmit sub by (simp add: scanner_thread_finish_def s2_def Let_def)
      then show ?thesis
        using fr False resubmit
        by (simp add: queued_count_def push_pending_scanner_def
            scanner_release_pending_token_frame)
    qed
  next
    case handed
    then have "s1 = s2"
      using assms by (simp add: scanner_thread_finish_def s2_def Let_def split: if_splits)
    then show ?thesis by simp
  next
    case eof
    define s4 where "s4 =
      (ConnectorScanner_close j (s2\<lparr>scan_node := scanner_release_pending_token j (scan_node s2)\<rparr>))
        \<lparr>closed_scanners :=
           closed_scanners (ConnectorScanner_close j
             (s2\<lparr>scan_node := scanner_release_pending_token j (scan_node s2)\<rparr>)) + 1\<rparr>"
    have f4: "map opened (scanners (scan_node s4)) = map opened (scanners (scan_node s2))"
      "thread_pool (scan_node s4) = thread_pool (scan_node s2)"
      "pending_scanners s4 = pending_scanners s2"
      by (simp_all add: s4_def ConnectorScanner_close_def scanner_release_pending_token_frame)
    have u: "scanner_thread_finish env j (st, resubmit, owned, s) =
      (case pending_scanners s4 of
         [] \<Rightarrow> s4
       | nscanner # rest \<Rightarrow>
           (let (submitted, node1, events) = submit_scanner (scan_node s4) nscanner False;
                s5 = s4\<lparr>scan_node := node1, pending_scanners := rest\<rparr>
            in if \<not> submitted then push_pending_scanner nscanner s5 else s5))"
      using eof
      by (simp add: scanner_thread_finish_def s2_def s4_def Let_def
          split: list.splits prod.splits)
    show ?thesis
    proof (cases "pending_scanners s4")
      case Nil
      then have "s1 = s4" using assms u by simp
      then show ?thesis using f4 by (simp add: queued_count_def)
    next
      case (Cons nscanner rest)
      obtain submitted node1 events where
        sub: "submit_scanner (scan_node s4) nscanner False = (submitted, node1, events)"
        by (cases "submit_scanner (scan_node s4) nscanner False") auto
      note fr = submit_scanner_frame(1,2) [OF sub]
      have "s1 = (if \<not> submitted
                  then push_pending_scanner nscanner (s4\<lparr>scan_node := node1, pending_scanners := rest\<rparr>)
                  else s4\<lparr>scan_node := node1, pending_scanners := rest\<rparr>)"
        using assms u Cons sub by (simp add: Let_def split: if_splits)
      moreover have "pending_scanners s2 = nscanner # rest" using Cons f4(3) by simp
      ultimately show ?thesis
        using fr f4(1,2)
        by (auto simp: queued_count_def push_pending_scanner_def)
    qed
  next
    case failed
    then have "s1 = release_scanner j (s2\<lparr>scan_node := update_status st (scan_node s2)\<rparr>)"
      using assms by (simp add: scanner_thread_finish_def s2_def Let_def)
    then show ?thesis
      by (simp add: release_scanner_frame update_status_frame queued_count_def)
  next
    case cancelled
    then have "s1 = release_scanner j s2 \<or> s1 = s2"
      using assms by (auto simp: scanner_thread_finish_def s2_def Let_def split: if_splits)
    then show ?thesis
      by (auto simp: release_scanner_frame queued_count_def)
  qed
  then show ?thesis using f2 by simp
qed

lemma map_opened_nth:
  "map opened scs1 = map opened scs \<Longrightarrow> i < length scs \<Longrightarrow> opened (scs1 ! i) = opened (scs ! i)"
  by (metis length_map nth_map)

lemma opened_once_frame:
  assumes "opened_once ds i s"
    and "map opened (scanners (scan_node s1)) = map opened (scanners (scan_node s))"
    and "i < length (scanners (scan_node s))"
    and "queued_count i s1 \<le> queued_count i s"
  shows "opened_once ds i s1"
proof -
  have "opened (scanners (scan_node s1) ! i) = opened (scanners (scan_node s) ! i)"
    using assms(2,3) by (rule map_opened_nth)
  then show ?thesis
    using assms(1,4) by (auto simp: opened_once_def split: prod.splits if_splits)
qed

lemma opened_once_requeued:
  assumes "opened_once ds i s"
    and "map opened (scanners (scan_node s1)) = map opened (scanners (scan_node s))"
    and "i < length (scanners (scan_node s))"
    and "queued_count i s1 \<le> 1"
    and "is_open (scanners (scan_node s) ! i)
         \<or> open_calls (data_source (scanners (scan_node s) ! i)) = open_calls ds"
  shows "opened_once ds i s1"
proof -
  have "opened (scanners (scan_node s1) ! i) = opened (scanners (scan_node s) ! i)"
    using assms(2,3) by (rule map_opened_nth)
  then show ?thesis
    using assms(1,4,5) by (auto simp: opened_once_def opened_def split: prod.splits if_splits)
qed

lemma opened_once_queued:
  assumes "opened_once ds i s" and "0 < queued_count i s"
  shows "queued_count i s = 1"
    and "is_open (scanners (scan_node s) ! i)
         \<or> open_calls (data_source (scanners (scan_node s) ! i)) = open_calls ds"
  using assms by (auto simp: opened_once_def opened_def split: if_splits)

lemma ConnectorScanner_open_opened:
  "opened (snd (ConnectorScanner_open sc)) =
    (if is_open sc then opened sc
     else (data_source sc\<lparr>open_calls := Suc (open_calls (data_source sc))\<rparr>,
           ok (open_answers (data_source sc) (open_calls (data_source sc)))))"
  "ok (fst (ConnectorScanner_open sc)) \<longleftrightarrow>
     is_open sc \<or> ok (open_answers (data_source sc) (open_calls (data_source sc)))"
  by (simp_all add: ConnectorScanner_open_def DataSource_open_def Let_def opened_def ok_def)

lemma ConnectorScanner_open_cong:
  assumes "opened sc1 = opened sc"
  shows "opened (snd (ConnectorScanner_open sc1)) = opened (snd (ConnectorScanner_open sc))"
    and "ok (fst (ConnectorScanner_open sc1)) = ok (fst (ConnectorScanner_open sc))"
  using assms unfolding ConnectorScanner_open_opened by (simp_all add: opened_def)

text \<open>After the call of \<^verbatim>\<open>open\<close> in a run on scanner \<open>i\<close>, which was not queued.\<close>

lemma opened_once_after_open:
  assumes inv: "opened_once ds i s"
    and fresh: "is_open (scanners (scan_node s) ! i)
         \<or> open_calls (data_source (scanners (scan_node s) ! i)) = open_calls ds"
    and i: "i < length (scanners (scan_node s))"
    and s3: "map opened (scanners (scan_node s3)) = map opened (scanners (scan_node s))"
    and s5: "map opened (scanners (scan_node s5)) =
        map opened ((scanners (scan_node s3))
          [i := (snd (ConnectorScanner_open (scanners (scan_node s3) ! i)))\<lparr>keep_priority := False\<rparr>])"
    and q: "queued_count i s5 \<le> 1"
    and qok: "0 < queued_count i s5 \<longrightarrow> ok (fst (ConnectorScanner_open (scanners (scan_node s3) ! i)))"
  shows "opened_once ds i s5"
proof -
  let ?sc = "scanners (scan_node s) ! i"
  let ?sc3 = "scanners (scan_node s3) ! i"
  have len: "length (scanners (scan_node s3)) = length (scanners (scan_node s))"
    using s3 by (metis length_map)
  have o3: "opened ?sc3 = opened ?sc"
    using s3 i by (rule map_opened_nth)
  have "opened (scanners (scan_node s5) ! i)
      = opened ((scanners (scan_node s3))
          [i := (snd (ConnectorScanner_open ?sc3))\<lparr>keep_priority := False\<rparr>] ! i)"
    using s5 i len by (intro map_opened_nth) simp_all
  then have o5: "opened (scanners (scan_node s5) ! i) = opened (snd (ConnectorScanner_open ?sc))"
    using i len ConnectorScanner_open_cong(1) [OF o3] by simp
  have okk: "ok (fst (ConnectorScanner_open ?sc3)) = ok (fst (ConnectorScanner_open ?sc))"
    using ConnectorScanner_open_cong(2) [OF o3] .
  show ?thesis
  proof (cases "is_open ?sc")
    case True
    then have "opened (scanners (scan_node s5) ! i) = opened ?sc"
      using o5 by (simp add: ConnectorScanner_open_opened)
    then show ?thesis
      using inv True q by (auto simp: opened_once_def opened_def split: prod.splits if_splits)
  next
    case False
    then have c: "open_calls (data_source ?sc) = open_calls ds" using fresh by simp
    have a: "open_answers (data_source ?sc) = open_answers ds"
      using inv by (simp add: opened_once_def opened_def)
    have "opened (scanners (scan_node s5) ! i)
        = (data_source ?sc\<lparr>open_calls := Suc (open_calls ds)\<rparr>,
           ok (open_answers ds (open_calls ds)))"
      using o5 False c a by (simp add: ConnectorScanner_open_opened)
    moreover have "0 < queued_count i s5 \<longrightarrow> ok (open_answers ds (open_calls ds))"
      using qok okk False c a by (simp add: ConnectorScanner_open_opened)
    ultimately show ?thesis
      using q a by (auto simp: opened_once_def)
  qed
qed

lemma opened_once_other:
  assumes inv: "opened_once ds i s"
    and i: "i < length (scanners (scan_node s))"
    and ij: "i \<noteq> j"
    and s3: "map opened (scanners (scan_node s3)) = map opened (scanners (scan_node s))"
    and s5: "map opened (scanners (scan_node s5)) = map opened ((scanners (scan_node s3))[j := sc])"
    and q: "queued_count i s5 \<le> queued_count i s"
  shows "opened_once ds i s5"
proof -
  have len: "length (scanners (scan_node s3)) = length (scanners (scan_node s))"
    using s3 by (metis length_map)
  have "opened (scanners (scan_node s5) ! i) = opened ((scanners (scan_node s3))[j := sc] ! i)"
    using s5 i len by (intro map_opened_nth) simp_all
  also have "\<dots> = opened (scanners (scan_node s3) ! i)" using ij by simp
  also have "\<dots> = opened (scanners (scan_node s) ! i)" using s3 i by (rule map_opened_nth)
  finally show ?thesis
    using inv q by (auto simp: opened_once_def split: prod.splits if_splits)
qed

lemma scanner_thread_opened_once:
  assumes inv: "opened_once ds i s"
    and i: "i < length (scanners (scan_node s))"
    and own: "i = j \<longrightarrow> queued_count i s = 0 \<and>
        (is_open (scanners (scan_node s) ! i)
         \<or> open_calls (data_source (scanners (scan_node s) ! i)) = open_calls ds)"
  shows "scanner_thread env j s = Some s1 \<longrightarrow>
           opened_once ds i s1 \<and> length (scanners (scan_node s1)) = length (scanners (scan_node s))"
    and "scanner_thread_open env j s = Inr (st, s5) \<longrightarrow>
           opened_once ds i s5 \<and> length (scanners (scan_node s5)) = length (scanners (scan_node s))"
proof -
  obtain s3 where
    s3: "map opened (scanners (scan_node s3)) = map opened (scanners (scan_node s))"
    and q3: "\<forall>i. queued_count i s3 \<le> queued_count i s"
    and cases: "scanner_thread_open env j s = Inl (release_scanner j s3)
         \<or> scanner_thread_open env j s = Inl (push_pending_scanner j s3)
         \<or> scanner_thread_open env j s =
             Inr (fst (ConnectorScanner_open (scanners (scan_node s3) ! j)),
                  s3\<lparr>scan_node := (scan_node s3)\<lparr>scanners := (scanners (scan_node s3))
                    [j := (snd (ConnectorScanner_open (scanners (scan_node s3) ! j)))
                            \<lparr>keep_priority := False\<rparr>]\<rparr>\<rparr>)"
    using scanner_thread_open_cases [where s = s and env = env and j = j] by blast
  let ?st = "fst (ConnectorScanner_open (scanners (scan_node s3) ! j))"
  let ?sc = "(snd (ConnectorScanner_open (scanners (scan_node s3) ! j)))\<lparr>keep_priority := False\<rparr>"
  let ?s5 = "s3\<lparr>scan_node := (scan_node s3)\<lparr>scanners := (scanners (scan_node s3))[j := ?sc]\<rparr>\<rparr>"
  have len3: "length (scanners (scan_node s3)) = length (scanners (scan_node s))"
    using s3 by (metis length_map)
  have q5: "queued_count i ?s5 = queued_count i s3" by (simp add: queued_count_def)
  have after: "opened_once ds i s7 \<and> length (scanners (scan_node s7)) = length (scanners (scan_node s))"
    if m: "map opened (scanners (scan_node s7)) = map opened (scanners (scan_node ?s5))"
      and q: "queued_count i s7 \<le> queued_count i ?s5 + (if i = j \<and> ok ?st then 1 else 0)"
    for s7
  proof -
    have l: "length (scanners (scan_node s7)) = length (scanners (scan_node s))"
      using m len3 by (metis length_map length_list_update NodeScheduling.select_convs(1)
          NodeScheduling.update_convs(1) ConnectorScanNode.select_convs(10)
          ConnectorScanNode.update_convs(10) NodeScheduling.surjective ConnectorScanNode.surjective)
    have m': "map opened (scanners (scan_node s7)) = map opened ((scanners (scan_node s3))[j := ?sc])"
      using m by simp
    show ?thesis
    proof (cases "i = j")
      case False
      have "queued_count i s7 \<le> queued_count i s" using q q5 q3 False by (simp add: le_trans)
      from opened_once_other [OF inv i False s3 m' this] l show ?thesis by simp
    next
      case True
      have q0: "queued_count i s3 = 0" using q3 own True by (metis le_zero_eq)
      have "queued_count i s7 \<le> 1"
        and "0 < queued_count i s7 \<longrightarrow> ok (fst (ConnectorScanner_open (scanners (scan_node s3) ! i)))"
        using q q5 q0 True by (auto split: if_splits)
      from opened_once_after_open [OF inv _ i s3 _ this] own True m' l
      show ?thesis by simp
    qed
  qed
  show "scanner_thread_open env j s = Inr (st, s5) \<longrightarrow>
           opened_once ds i s5 \<and> length (scanners (scan_node s5)) = length (scanners (scan_node s))"
  proof
    assume a: "scanner_thread_open env j s = Inr (st, s5)"
    then have "s5 = ?s5" using cases by auto
    then show "opened_once ds i s5 \<and> length (scanners (scan_node s5)) = length (scanners (scan_node s))"
      using after [of s5] by simp
  qed
  show "scanner_thread env j s = Some s1 \<longrightarrow>
           opened_once ds i s1 \<and> length (scanners (scan_node s1)) = length (scanners (scan_node s))"
  proof
    assume run: "scanner_thread env j s = Some s1"
    from cases consider
      (release) "scanner_thread_open env j s = Inl (release_scanner j s3)"
      | (push) "scanner_thread_open env j s = Inl (push_pending_scanner j s3)"
      | (opened) "scanner_thread_open env j s = Inr (?st, ?s5)"
      by blast
    then show "opened_once ds i s1 \<and> length (scanners (scan_node s1)) = length (scanners (scan_node s))"
    proof cases
      case release
      then have s1: "s1 = scanner_thread_exit (release_scanner j s3)"
        using run by (auto simp: scanner_thread_def)
      have "map opened (scanners (scan_node s1)) = map opened (scanners (scan_node s))"
        using s1 s3 by (simp add: scanner_thread_exit_frame release_scanner_frame)
      moreover have "queued_count i s1 \<le> queued_count i s"
        using s1 q3 release_scanner_queued [of i j s3]
        by (simp add: scanner_thread_exit_frame) (metis le_trans)
      ultimately show ?thesis
        using opened_once_frame [OF inv _ i] by (metis length_map)
    next
      case push
      then have s1: "s1 = scanner_thread_exit (push_pending_scanner j s3)"
        using run by (auto simp: scanner_thread_def)
      have m: "map opened (scanners (scan_node s1)) = map opened (scanners (scan_node s))"
        using s1 s3 by (simp add: scanner_thread_exit_frame push_pending_scanner_frame)
      have q: "queued_count i s1 = queued_count i s3 + (if i = j then 1 else 0)"
        using s1 by (simp add: scanner_thread_exit_frame push_pending_scanner_frame)
      have "opened_once ds i s1"
      proof (cases "i = j")
        case False
        then have "queued_count i s1 \<le> queued_count i s" using q q3 by simp
        from opened_once_frame [OF inv m i this] show ?thesis .
      next
        case True
        have "queued_count i s3 = 0" using q3 own True by (metis le_zero_eq)
        then have "queued_count i s1 \<le> 1" using q by simp
        from opened_once_requeued [OF inv m i this] own True show ?thesis by simp
      qed
      then show ?thesis using m by (metis length_map)
    next
      case opened
      then obtain r where
        loop: "produce_loop (loop_envs env) j ?st ?s5 = Some r"
        and fin: "scanner_thread_exit (scanner_thread_finish env j r) = s1"
        using run by (auto simp: scanner_thread_def split: option.splits)
      obtain st1 resubmit owned s6 where r: "r = (st1, resubmit, owned, s6)"
        by (cases r) auto
      obtain s7 where fin7: "scanner_thread_finish env j (st1, resubmit, owned, s6) = s7"
        and s1: "s1 = scanner_thread_exit s7"
        using fin r by auto
      note lf = produce_loop_frame [OF loop [unfolded r]]
      note ff = scanner_thread_finish_frame [OF fin7, of i]
      have m: "map opened (scanners (scan_node s1)) = map opened (scanners (scan_node ?s5))"
        using s1 lf ff by (simp add: scanner_thread_exit_frame)
      have q6: "queued_count i s6 = queued_count i ?s5 + (if i = j \<and> \<not> owned then 1 else 0)"
        using lf by (simp add: queued_count_def)
      have "queued_count i s1 \<le> queued_count i ?s5 + (if i = j \<and> ok ?st then 1 else 0)"
        using s1 ff q6 lf by (auto simp: scanner_thread_exit_frame split: if_splits)
      from after [OF m this] show ?thesis .
    qed
  qed
qed

lemma take_task_frame:
  assumes "accepted (thread_pool (scan_node s)) = before @ t # after"
  shows "scanners (scan_node (take_task (before @ after) s)) = scanners (scan_node s)"
    and "queued_count i (take_task (before @ after) s) + (if i = task_scanner t then 1 else 0)
         = queued_count i s"
  using assms by (simp_all add: take_task_def queued_count_def)

lemma take_task_opened_once:
  assumes acc: "accepted (thread_pool (scan_node s)) = before @ t # after"
    and inv: "opened_once ds i s"
    and i: "i < length (scanners (scan_node s))"
  shows "opened_once ds i (take_task (before @ after) s)"
    and "i = task_scanner t \<longrightarrow> queued_count i (take_task (before @ after) s) = 0 \<and>
        (is_open (scanners (scan_node (take_task (before @ after) s)) ! i)
         \<or> open_calls (data_source (scanners (scan_node (take_task (before @ after) s)) ! i))
           = open_calls ds)"
proof -
  note fr = take_task_frame(1) [OF acc] take_task_frame(2) [OF acc, where i = i]
  have "queued_count i (take_task (before @ after) s) \<le> queued_count i s"
    using fr(2) by (simp split: if_splits)
  from opened_once_frame [OF inv _ i this] fr(1)
  show "opened_once ds i (take_task (before @ after) s)" by simp
  show "i = task_scanner t \<longrightarrow> queued_count i (take_task (before @ after) s) = 0 \<and>
        (is_open (scanners (scan_node (take_task (before @ after) s)) ! i)
         \<or> open_calls (data_source (scanners (scan_node (take_task (before @ after) s)) ! i))
           = open_calls ds)"
  proof
    assume it: "i = task_scanner t"
    then have pos: "0 < queued_count i s" using fr(2) by simp
    from opened_once_queued [OF inv pos] fr it
    show "queued_count i (take_task (before @ after) s) = 0 \<and>
        (is_open (scanners (scan_node (take_task (before @ after) s)) ! i)
         \<or> open_calls (data_source (scanners (scan_node (take_task (before @ after) s)) ! i))
           = open_calls ds)"
      by simp
  qed
qed

lemma scanner_thread_length:
  shows "scanner_thread env j s = Some s1 \<longrightarrow>
           length (scanners (scan_node s1)) = length (scanners (scan_node s))"
    and "scanner_thread_open env j s = Inr (st, s5) \<longrightarrow>
           length (scanners (scan_node s5)) = length (scanners (scan_node s))"
proof -
  obtain s3 where
    s3: "map opened (scanners (scan_node s3)) = map opened (scanners (scan_node s))"
    and cases: "scanner_thread_open env j s = Inl (release_scanner j s3)
         \<or> scanner_thread_open env j s = Inl (push_pending_scanner j s3)
         \<or> scanner_thread_open env j s =
             Inr (fst (ConnectorScanner_open (scanners (scan_node s3) ! j)),
                  s3\<lparr>scan_node := (scan_node s3)\<lparr>scanners := (scanners (scan_node s3))
                    [j := (snd (ConnectorScanner_open (scanners (scan_node s3) ! j)))
                            \<lparr>keep_priority := False\<rparr>]\<rparr>\<rparr>)"
    using scanner_thread_open_cases [where s = s and env = env and j = j] by blast
  let ?st = "fst (ConnectorScanner_open (scanners (scan_node s3) ! j))"
  let ?sc = "(snd (ConnectorScanner_open (scanners (scan_node s3) ! j)))\<lparr>keep_priority := False\<rparr>"
  let ?s5 = "s3\<lparr>scan_node := (scan_node s3)\<lparr>scanners := (scanners (scan_node s3))[j := ?sc]\<rparr>\<rparr>"
  have len3: "length (scanners (scan_node s3)) = length (scanners (scan_node s))"
    using s3 by (metis length_map)
  have len5: "length (scanners (scan_node ?s5)) = length (scanners (scan_node s))"
    using len3 by simp
  show "scanner_thread_open env j s = Inr (st, s5) \<longrightarrow>
           length (scanners (scan_node s5)) = length (scanners (scan_node s))"
    using cases len5 by auto
  show "scanner_thread env j s = Some s1 \<longrightarrow>
           length (scanners (scan_node s1)) = length (scanners (scan_node s))"
  proof
    assume run: "scanner_thread env j s = Some s1"
    from cases consider
      (early) "scanner_thread_open env j s = Inl (release_scanner j s3)
               \<or> scanner_thread_open env j s = Inl (push_pending_scanner j s3)"
      | (opened) "scanner_thread_open env j s = Inr (?st, ?s5)"
      by blast
    then show "length (scanners (scan_node s1)) = length (scanners (scan_node s))"
    proof cases
      case early
      then have "s1 = scanner_thread_exit (release_scanner j s3)
          \<or> s1 = scanner_thread_exit (push_pending_scanner j s3)"
        using run by (auto simp: scanner_thread_def)
      then have "map opened (scanners (scan_node s1)) = map opened (scanners (scan_node s3))"
        by (auto simp: scanner_thread_exit_frame release_scanner_frame push_pending_scanner_frame)
      then show ?thesis using len3 by (metis length_map)
    next
      case opened
      then obtain r where
        loop: "produce_loop (loop_envs env) j ?st ?s5 = Some r"
        and fin: "scanner_thread_exit (scanner_thread_finish env j r) = s1"
        using run by (auto simp: scanner_thread_def split: option.splits)
      obtain st1 resubmit owned s6 where r: "r = (st1, resubmit, owned, s6)"
        by (cases r) auto
      obtain s7 where fin7: "scanner_thread_finish env j (st1, resubmit, owned, s6) = s7"
        and s1: "s1 = scanner_thread_exit s7"
        using fin r by auto
      note lf = produce_loop_frame [OF loop [unfolded r]]
      note ff = scanner_thread_finish_frame [OF fin7, of j]
      have "map opened (scanners (scan_node s1)) = map opened (scanners (scan_node ?s5))"
        using s1 lf ff by (simp add: scanner_thread_exit_frame)
      then have "length (scanners (scan_node s1)) = length (scanners (scan_node ?s5))"
        by (metis length_map)
      then show ?thesis using len5 by simp
    qed
  qed
qed

lemma scan_step_length:
  assumes "scan_step s s1"
  shows "length (scanners (scan_node s1)) = length (scanners (scan_node s))"
  using assms
proof cases
  case (pop_and_submit scanner rest submitted node1 events)
  then show ?thesis using submit_scanner_frame(1) [OF pop_and_submit(3)] by simp
next
  case (worker_returns before t after env)
  then show ?thesis
    using scanner_thread_length(1) [of env "task_scanner t" "take_task (before @ after) s" s1]
    by (simp add: take_task_def)
next
  case (worker_in_loop before t after env st)
  then show ?thesis
    using scanner_thread_length(2) [of env "task_scanner t" "take_task (before @ after) s" st s1]
    by (simp add: take_task_def)
next
  case node_close
  then show ?thesis by (simp add: close_pending_scanners_frame)
qed

lemma scan_step_opened_once:
  assumes "scan_step s s1" and i: "i < length (scanners (scan_node s))" and inv: "opened_once ds i s"
  shows "opened_once ds i s1 \<and> length (scanners (scan_node s1)) = length (scanners (scan_node s))"
  using assms(1)
proof cases
  case (pop_and_submit scanner rest submitted node1 events)
  note fr = submit_scanner_frame [OF pop_and_submit(3)]
  have "queued_count i s1 \<le> queued_count i s"
    using pop_and_submit(1,2) fr by (simp add: queued_count_def)
  moreover have "map opened (scanners (scan_node s1)) = map opened (scanners (scan_node s))"
    using pop_and_submit(1) fr(1) by simp
  ultimately show ?thesis
    using opened_once_frame [OF inv _ i] by (metis length_map)
next
  case (worker_returns before t after env)
  note tt = take_task_opened_once [OF worker_returns(1) inv i]
  note fr = take_task_frame(1) [OF worker_returns(1)]
  have "i < length (scanners (scan_node (take_task (before @ after) s)))" using i fr by simp
  from scanner_thread_opened_once(1) [OF tt(1) this tt(2), THEN mp, OF worker_returns(2)] fr
  show ?thesis by simp
next
  case (worker_in_loop before t after env st)
  note tt = take_task_opened_once [OF worker_in_loop(1) inv i]
  note fr = take_task_frame(1) [OF worker_in_loop(1)]
  have "i < length (scanners (scan_node (take_task (before @ after) s)))" using i fr by simp
  from scanner_thread_opened_once(2) [OF tt(1) this tt(2), THEN mp, OF worker_in_loop(2)] fr
  show ?thesis by simp
next
  case node_close
  have "queued_count i s1 \<le> queued_count i s"
    using node_close by (simp add: queued_count_def close_pending_scanners_frame)
  moreover have "map opened (scanners (scan_node s1)) = map opened (scanners (scan_node s))"
    using node_close by (simp add: close_pending_scanners_frame)
  ultimately show ?thesis
    using opened_once_frame [OF inv _ i] by (metis length_map)
qed

lemma foldl_create_and_init_scanner:
  "scanners (scan_node (foldl (\<lambda>s ds. create_and_init_scanner ds s) s data_sources))
     = scanners (scan_node s) @ map new_ConnectorScanner data_sources
   \<and> pending_scanners (foldl (\<lambda>s ds. create_and_init_scanner ds s) s data_sources)
     = rev [length (scanners (scan_node s)) ..<
            length (scanners (scan_node s)) + length data_sources] @ pending_scanners s
   \<and> thread_pool (scan_node (foldl (\<lambda>s ds. create_and_init_scanner ds s) s data_sources))
     = thread_pool (scan_node s)"
proof (induction data_sources arbitrary: s)
  case Nil
  then show ?case by simp
next
  case (Cons ds rest)
  let ?s1 = "create_and_init_scanner ds s"
  have s1: "scanners (scan_node ?s1) = scanners (scan_node s) @ [new_ConnectorScanner ds]"
    "pending_scanners ?s1 = length (scanners (scan_node s)) # pending_scanners s"
    "thread_pool (scan_node ?s1) = thread_pool (scan_node s)"
    by (simp_all add: create_and_init_scanner_def push_pending_scanner_def)
  have "[length (scanners (scan_node s)) ..< length (scanners (scan_node s)) + length (ds # rest)]
      = length (scanners (scan_node s))
        # [Suc (length (scanners (scan_node s))) ..< Suc (length (scanners (scan_node s))) + length rest]"
    by (subst upt_rec) simp
  then show ?case
    using Cons.IH [of ?s1] s1 by simp
qed

lemma count_list_upt: "count_list [m ..< n] i = (if m \<le> i \<and> i < n then 1 else 0)"
  by (induction n) auto

lemma create_scanners_opened_once:
  assumes "scanners (scan_node s) = []" and "pending_scanners s = []"
    and "accepted (thread_pool (scan_node s)) = []"
  shows "scanners (scan_node (create_scanners data_sources s)) = map new_ConnectorScanner data_sources"
    and "i < length data_sources \<Longrightarrow> opened_once (data_sources ! i) i (create_scanners data_sources s)"
proof -
  note f = foldl_create_and_init_scanner [of s data_sources]
  show sc: "scanners (scan_node (create_scanners data_sources s))
      = map new_ConnectorScanner data_sources"
    using f assms by (simp add: create_scanners_def Let_def)
  have p: "pending_scanners (create_scanners data_sources s) = [0 ..< length data_sources]"
    using f assms by (simp add: create_scanners_def Let_def)
  have a: "accepted (thread_pool (scan_node (create_scanners data_sources s))) = []"
    using f assms by (simp add: create_scanners_def Let_def)
  have "count_list [0 ..< length data_sources] i \<le> 1"
    by (simp add: count_list_upt)
  then have q: "queued_count i (create_scanners data_sources s) \<le> 1"
    using p a by (simp add: queued_count_def)
  show "opened_once (data_sources ! i) i (create_scanners data_sources s)"
    if "i < length data_sources"
    using that q sc by (simp add: opened_once_def opened_def new_ConnectorScanner_def)
qed

lemma scan_reachable_opened_once:
  assumes "scan_reachable data_sources s"
  shows "length (scanners (scan_node s)) = length data_sources
    \<and> (\<forall>i<length data_sources. opened_once (data_sources ! i) i s)"
  using assms
proof induction
  case (started s data_sources)
  then show ?case using create_scanners_opened_once [of s] by simp
next
  case (stepped data_sources s s1)
  then show ?case using scan_step_opened_once [of s s1] scan_step_length [of s s1] by simp
qed

lemmas scanner_thread_eval =
  scanner_thread_def scanner_thread_open_def scanner_thread_finish_def scanner_thread_exit_def
  take_task_def update_status_def ok_def is_end_of_file_def has_pending_token_def
  scanner_acquire_pending_token_def scanner_release_pending_token_def
  acquire_pending_token_def release_pending_token_def atomic_cas_def compare_exchange_strong_def
  ConnectorScanner_open_def DataSource_open_def ConnectorScanner_close_def
  push_pending_scanner_def release_scanner_def close_pending_scanners_def
  submit_scanner_def try_offer_def offer_def compute_priority_def
  create_scanners_def create_and_init_scanner_def new_ConnectorScanner_def Let_def

text \<open>
  Claim C9. \<^verbatim>\<open>ConnectorScanner::open\<close> is idempotent: on a scanner that is open it
  returns \<open>OK\<close> and leaves the scanner as it was, so the data source is not called again
  and the scanner stays open. Over the life of a scanner the data source's \<^verbatim>\<open>open\<close>
  is called at most once: in every state that the node reaches from the start of the
  scan, the data source of each scanner has seen at most one call of \<^verbatim>\<open>open\<close> since
  the scanner was made for it; if the scanner is open it has seen exactly one, and that
  call succeeded.
\<close>

theorem ConnectorScanner_open_idempotent:
  "(is_open sc \<longrightarrow>
      ConnectorScanner_open sc = (OK, sc)
      \<and> is_open (snd (ConnectorScanner_open sc))
      \<and> open_calls (data_source (snd (ConnectorScanner_open sc))) = open_calls (data_source sc))
   \<and> (scan_reachable data_sources s \<and> i < length data_sources \<longrightarrow>
        open_answers (data_source (scanners (scan_node s) ! i)) = open_answers (data_sources ! i)
        \<and> open_calls (data_sources ! i) \<le> open_calls (data_source (scanners (scan_node s) ! i))
        \<and> open_calls (data_source (scanners (scan_node s) ! i)) \<le> open_calls (data_sources ! i) + 1
        \<and> (is_open (scanners (scan_node s) ! i) \<longrightarrow>
             open_calls (data_source (scanners (scan_node s) ! i)) = open_calls (data_sources ! i) + 1
             \<and> ok (open_answers (data_sources ! i) (open_calls (data_sources ! i)))))"
proof (intro conjI impI)
  assume "scan_reachable data_sources s \<and> i < length data_sources"
  then have inv: "opened_once (data_sources ! i) i s"
    using scan_reachable_opened_once [of data_sources s] by simp
  show "open_answers (data_source (scanners (scan_node s) ! i)) = open_answers (data_sources ! i)"
    using inv by (simp add: opened_once_def opened_def)
  show "open_calls (data_sources ! i) \<le> open_calls (data_source (scanners (scan_node s) ! i))"
    using inv by (auto simp: opened_once_def opened_def split: if_splits)
  show "open_calls (data_source (scanners (scan_node s) ! i)) \<le> open_calls (data_sources ! i) + 1"
    using inv by (auto simp: opened_once_def opened_def split: if_splits)
  show "open_calls (data_source (scanners (scan_node s) ! i)) = open_calls (data_sources ! i) + 1"
    if "is_open (scanners (scan_node s) ! i)"
    using inv that by (simp add: opened_once_def opened_def)
  show "ok (open_answers (data_sources ! i) (open_calls (data_sources ! i)))"
    if "is_open (scanners (scan_node s) ! i)"
    using inv that by (simp add: opened_once_def opened_def)
qed (simp_all add: ConnectorScanner_open_def)

theorem ConnectorScanner_open_idempotent_witness:
  "scan_reachable [\<lparr>open_answers = (\<lambda>k. OK), open_calls = 0\<rparr>]
     \<lparr>scan_node =
        \<lparr>status = OK, start = False, limit = - 1, num_rows_returned = 0,
         result_chunks_shutdown = True, scanner_submit_count = 2, running_threads = 0,
         thread_pool = \<lparr>accepted = [], try_offer_answers = (\<lambda>k. True), try_offer_calls = 2\<rparr>,
         pending_token_slot = True,
         scanners = [\<lparr>data_source = \<lparr>open_answers = (\<lambda>k. OK), open_calls = 1\<rparr>,
                      is_open = True, keep_priority = False, pending_token = False\<rparr>]\<rparr>,
      pending_scanners = [], num_scanners = 1, closed_scanners = 1, closed_sources = [0]\<rparr>
   \<and> ConnectorScanner_open
        \<lparr>data_source = \<lparr>open_answers = (\<lambda>k. OK), open_calls = 1\<rparr>,
         is_open = True, keep_priority = False, pending_token = False\<rparr>
      = (OK, \<lparr>data_source = \<lparr>open_answers = (\<lambda>k. OK), open_calls = 1\<rparr>,
              is_open = True, keep_priority = False, pending_token = False\<rparr>)
   \<and> open_calls \<lparr>open_answers = (\<lambda>k. OK), open_calls = 1\<rparr>
      \<le> open_calls \<lparr>open_answers = (\<lambda>k. OK), open_calls = 0\<rparr> + 1"
proof -
  let ?ds = "\<lparr>open_answers = (\<lambda>k. OK), open_calls = 0\<rparr>"
  let ?sc = "\<lparr>data_source = \<lparr>open_answers = (\<lambda>k. OK), open_calls = 1\<rparr>,
         is_open = True, keep_priority = False, pending_token = False\<rparr>"
  let ?task = "\<lparr>task_scanner = 0, priority = 20\<rparr>"
  let ?s0 = "\<lparr>scan_node =
        \<lparr>status = OK, start = False, limit = - 1, num_rows_returned = 0,
         result_chunks_shutdown = False, scanner_submit_count = 0, running_threads = 0,
         thread_pool = \<lparr>accepted = [], try_offer_answers = (\<lambda>k. True), try_offer_calls = 0\<rparr>,
         pending_token_slot = True, scanners = []\<rparr>,
      pending_scanners = [], num_scanners = 0, closed_scanners = 0, closed_sources = []\<rparr>"
  let ?s1 = "\<lparr>scan_node =
        \<lparr>status = OK, start = False, limit = - 1, num_rows_returned = 0,
         result_chunks_shutdown = False, scanner_submit_count = 0, running_threads = 0,
         thread_pool = \<lparr>accepted = [], try_offer_answers = (\<lambda>k. True), try_offer_calls = 0\<rparr>,
         pending_token_slot = True,
         scanners = [\<lparr>data_source = ?ds, is_open = False, keep_priority = False,
                      pending_token = False\<rparr>]\<rparr>,
      pending_scanners = [0], num_scanners = 1, closed_scanners = 0, closed_sources = []\<rparr>"
  let ?s2 = "\<lparr>scan_node =
        \<lparr>status = OK, start = False, limit = - 1, num_rows_returned = 0,
         result_chunks_shutdown = False, scanner_submit_count = 1, running_threads = 1,
         thread_pool = \<lparr>accepted = [?task], try_offer_answers = (\<lambda>k. True), try_offer_calls = 1\<rparr>,
         pending_token_slot = True,
         scanners = [\<lparr>data_source = ?ds, is_open = False, keep_priority = False,
                      pending_token = False\<rparr>]\<rparr>,
      pending_scanners = [], num_scanners = 1, closed_scanners = 0, closed_sources = []\<rparr>"
  let ?s3 = "\<lparr>scan_node =
        \<lparr>status = OK, start = False, limit = - 1, num_rows_returned = 0,
         result_chunks_shutdown = False, scanner_submit_count = 2, running_threads = 1,
         thread_pool = \<lparr>accepted = [?task], try_offer_answers = (\<lambda>k. True), try_offer_calls = 2\<rparr>,
         pending_token_slot = False,
         scanners = [?sc\<lparr>pending_token := True\<rparr>]\<rparr>,
      pending_scanners = [], num_scanners = 1, closed_scanners = 0, closed_sources = []\<rparr>"
  let ?s4 = "\<lparr>scan_node =
        \<lparr>status = OK, start = False, limit = - 1, num_rows_returned = 0,
         result_chunks_shutdown = True, scanner_submit_count = 2, running_threads = 0,
         thread_pool = \<lparr>accepted = [], try_offer_answers = (\<lambda>k. True), try_offer_calls = 2\<rparr>,
         pending_token_slot = True, scanners = [?sc]\<rparr>,
      pending_scanners = [], num_scanners = 1, closed_scanners = 1, closed_sources = [0]\<rparr>"
  let ?env1 = "\<lparr>worker_status_begin = OK, max_hdfs_file_handle = 10, max_hdfs_scanner_num = 4,
      open_limit_yield = 0, open_limit_admission = 0,
      loop_envs = [\<lparr>worker_status_loop = OK, chunk_pool_empty = False, get_next_status = OK,
        put_result = True, num_rows_read = 100, raw_rows_threshold_reached = True\<rparr>],
      worker_status_end = OK\<rparr>"
  let ?env2 = "\<lparr>worker_status_begin = OK, max_hdfs_file_handle = 10, max_hdfs_scanner_num = 4,
      open_limit_yield = 0, open_limit_admission = 0,
      loop_envs = [\<lparr>worker_status_loop = OK, chunk_pool_empty = False, get_next_status = EndOfFile,
        put_result = True, num_rows_read = 100, raw_rows_threshold_reached = False\<rparr>],
      worker_status_end = OK\<rparr>"
  have c1: "create_scanners [?ds] ?s0 = ?s1"
    by (simp add: scanner_thread_eval)
  have "scan_reachable [?ds] (create_scanners [?ds] ?s0)"
    by (rule scan_reachable.started) simp_all
  then have r1: "scan_reachable [?ds] ?s1" unfolding c1 .
  have c2: "submit_scanner (scan_node ?s1) 0 True =
      (True, scan_node ?s2,
       [SubmitCountFetchAdd 1, RunningThreadsFetchAdd, TryOffer ?task True])"
    by (simp add: scanner_thread_eval)
  have "scan_step ?s1 (?s1\<lparr>scan_node := scan_node ?s2, pending_scanners := []\<rparr>)"
    by (rule scan_step.pop_and_submit [OF _ c2]) simp
  then have "scan_step ?s1 ?s2" by simp
  then have r2: "scan_reachable [?ds] ?s2" using r1 by (rule scan_reachable.stepped [rotated])
  have c3: "scanner_thread ?env1 (task_scanner ?task) (take_task ([] @ []) ?s2) = Some ?s3"
    by (simp add: scanner_thread_eval)
  have "scan_step ?s2 ?s3"
    by (rule scan_step.worker_returns [OF _ c3]) simp
  then have r3: "scan_reachable [?ds] ?s3" using r2 by (rule scan_reachable.stepped [rotated])
  have c4: "scanner_thread ?env2 (task_scanner ?task) (take_task ([] @ []) ?s3) = Some ?s4"
    by (simp add: scanner_thread_eval)
  have "scan_step ?s3 ?s4"
    by (rule scan_step.worker_returns [OF _ c4]) simp
  then have r4: "scan_reachable [?ds] ?s4" using r3 by (rule scan_reachable.stepped [rotated])
  have o: "is_open ?sc" by simp
  have i: "(0::nat) < length [?ds]" by simp
  from ConnectorScanner_open_idempotent [of ?sc "[?ds]" ?s4 0] r4 o i
  show ?thesis by simp
qed

section \<open>Submitting a scanner: properties\<close>

text \<open>
  Claim C6. \<^verbatim>\<open>_submit_scanner\<close> first adds to \<^verbatim>\<open>_scanner_submit_count\<close> 0 when the
  scanner keeps its priority and 1 otherwise, then adds 1 to \<^verbatim>\<open>_running_threads\<close>, and
  only then offers the task: these are its first three operations, in this order. Called
  with \<open>blockable\<close> it returns true. Called without, when the pool refuses the
  non-blocking offer, it takes both additions back, so that the two counters hold the
  values they had before the call, and returns false. When the task is accepted the
  counters keep their additions and the task, whose priority is computed from the count
  before the addition, is in the pool.
\<close>

theorem submit_scanner_counters:
  fixes node :: ConnectorScanNode and scanner :: nat and blockable :: bool
  defines "delta \<equiv> (if keep_priority (scanners node ! scanner) then 0 else 1)"
    and "task \<equiv> \<lparr>task_scanner = scanner,
                  priority = compute_priority (sint (scanner_submit_count node))\<rparr>"
    and "answer \<equiv> try_offer_answers (thread_pool node) (try_offer_calls (thread_pool node))"
    and "res \<equiv> fst (submit_scanner node scanner blockable)"
    and "node1 \<equiv> fst (snd (submit_scanner node scanner blockable))"
    and "events \<equiv> snd (snd (submit_scanner node scanner blockable))"
  shows
  "take 3 events = [SubmitCountFetchAdd delta, RunningThreadsFetchAdd, TryOffer task answer]
   \<and> (blockable \<longrightarrow> res)
   \<and> (\<not> blockable \<and> \<not> answer \<longrightarrow>
        \<not> res
        \<and> running_threads node1 = running_threads node
        \<and> scanner_submit_count node1 = scanner_submit_count node
        \<and> accepted (thread_pool node1) = accepted (thread_pool node)
        \<and> drop 3 events = [RunningThreadsFetchSub, SubmitCountFetchSub delta])
   \<and> (blockable \<or> answer \<longrightarrow>
        res
        \<and> running_threads node1 = running_threads node + 1
        \<and> scanner_submit_count node1 = scanner_submit_count node + delta
        \<and> accepted (thread_pool node1) = accepted (thread_pool node) @ [task]
        \<and> drop 3 events = (if answer then [] else [Offer task]))"
  unfolding delta_def task_def answer_def res_def node1_def events_def
  by (simp add: submit_scanner_def try_offer_def offer_def Let_def)

theorem submit_scanner_counters_witness:
  "submit_scanner
     \<lparr>status = OK, start = True, limit = - 1, num_rows_returned = 0,
      result_chunks_shutdown = False, scanner_submit_count = 600, running_threads = 3,
      thread_pool = \<lparr>accepted = [], try_offer_answers = (\<lambda>k. False), try_offer_calls = 0\<rparr>,
      pending_token_slot = True,
      scanners = [new_ConnectorScanner \<lparr>open_answers = (\<lambda>k. OK), open_calls = 0\<rparr>]\<rparr>
     0 False
   = (False,
      \<lparr>status = OK, start = True, limit = - 1, num_rows_returned = 0,
       result_chunks_shutdown = False, scanner_submit_count = 600, running_threads = 3,
       thread_pool = \<lparr>accepted = [], try_offer_answers = (\<lambda>k. False), try_offer_calls = 1\<rparr>,
       pending_token_slot = True,
       scanners = [new_ConnectorScanner \<lparr>open_answers = (\<lambda>k. OK), open_calls = 0\<rparr>]\<rparr>,
      [SubmitCountFetchAdd 1, RunningThreadsFetchAdd,
       TryOffer \<lparr>task_scanner = 0, priority = 10\<rparr> False,
       RunningThreadsFetchSub, SubmitCountFetchSub 1])"
proof -
  let ?node = "\<lparr>status = OK, start = True, limit = - 1, num_rows_returned = 0,
      result_chunks_shutdown = False, scanner_submit_count = 600, running_threads = 3,
      thread_pool = \<lparr>accepted = [], try_offer_answers = (\<lambda>k. False), try_offer_calls = 0\<rparr>,
      pending_token_slot = True,
      scanners = [new_ConnectorScanner \<lparr>open_answers = (\<lambda>k. OK), open_calls = 0\<rparr>]\<rparr>"
  have "\<not> fst (submit_scanner ?node 0 False)
      \<and> running_threads (fst (snd (submit_scanner ?node 0 False))) = running_threads ?node
      \<and> scanner_submit_count (fst (snd (submit_scanner ?node 0 False))) = scanner_submit_count ?node"
    using submit_scanner_counters [where node = ?node and scanner = 0 and blockable = False]
    by simp
  moreover have "submit_scanner ?node 0 False
     = (False, ?node\<lparr>thread_pool := (thread_pool ?node)\<lparr>try_offer_calls := 1\<rparr>\<rparr>,
        [SubmitCountFetchAdd 1, RunningThreadsFetchAdd,
         TryOffer \<lparr>task_scanner = 0, priority = 10\<rparr> False,
         RunningThreadsFetchSub, SubmitCountFetchSub 1])"
    by (simp add: submit_scanner_def try_offer_def Let_def new_ConnectorScanner_def
        compute_priority_def)
  ultimately show ?thesis by simp
qed

section \<open>The pending token: properties\<close>

lemma filter_update_count:
  "i < length xs \<Longrightarrow>
   length (filter P (xs[i := y])) + (if P (xs ! i) then 1 else 0)
     = length (filter P xs) + (if P y then 1 else 0)"
proof (induction xs arbitrary: i)
  case Nil
  then show ?case by simp
next
  case (Cons x xs)
  show ?case
  proof (cases i)
    case 0
    then show ?thesis by simp
  next
    case (Suc j)
    then have "j < length xs" using Cons.prems by simp
    from Cons.IH [OF this] show ?thesis using Suc by simp
  qed
qed

lemma acquire_pending_token_eq:
  "acquire_pending_token sc token =
     (token, sc\<lparr>pending_token := (token \<or> pending_token sc)\<rparr>, token \<and> pending_token sc)"
  by (cases token) (simp_all add: acquire_pending_token_def atomic_cas_def compare_exchange_strong_def)

lemma release_pending_token_eq:
  "release_pending_token sc token =
     (pending_token sc, sc\<lparr>pending_token := False\<rparr>, token \<or> pending_token sc)"
  by (simp add: release_pending_token_def)

lemma token_step_count:
  assumes "token_step node node1"
  shows "token_count node1 \<le> max (token_count node) 1"
  using assms
proof (cases rule: token_step.cases)
  case (acquire i res sc token)
  from filter_update_count [OF acquire(2), of pending_token sc]
  show ?thesis using acquire
    by (auto simp: token_count_def acquire_pending_token_eq split: if_splits)
next
  case (release i res sc token)
  from filter_update_count [OF release(2), of pending_token sc]
  show ?thesis using release
    by (auto simp: token_count_def release_pending_token_eq split: if_splits)
qed

lemma token_step_preserves: "token_step node node1 \<Longrightarrow> token_count node \<le> 1 \<Longrightarrow> token_count node1 \<le> 1"
  using token_step_count [of node node1] by simp

lemma reachable_token_count: "reachable node \<Longrightarrow> token_count node \<le> 1"
proof (induction rule: reachable.induct)
  case (initial node)
  then have "filter pending_token (scanners node) = []"
    by (simp add: list_all_iff filter_empty_conv)
  then show ?case by (simp add: token_count_def)
next
  case (step node node1)
  then show ?case using token_step_preserves by blast
qed

text \<open>
  Claim C7. \<^verbatim>\<open>acquire_pending_token\<close> succeeds exactly when the slot of the node
  holds true, and then moves the token from the slot to the scanner; otherwise it changes
  nothing. \<^verbatim>\<open>release_pending_token\<close> moves the token back to the slot exactly when
  the scanner holds it. In every state that the node reaches by such steps from a state
  in which no scanner holds the token, the slot and the scanners together hold at most one
  token, so at most one scanner has \<^verbatim>\<open>_pending_token = true\<close>.
\<close>

theorem pending_token_at_most_one:
  "(fst (acquire_pending_token sc token) \<longleftrightarrow> token)
   \<and> (\<not> token \<longrightarrow> acquire_pending_token sc token = (False, sc, token))
   \<and> (token \<and> \<not> pending_token sc \<longrightarrow>
        acquire_pending_token sc token = (True, sc\<lparr>pending_token := True\<rparr>, False))
   \<and> (pending_token sc \<longrightarrow>
        release_pending_token sc token = (True, sc\<lparr>pending_token := False\<rparr>, True))
   \<and> (\<not> pending_token sc \<longrightarrow> release_pending_token sc token = (False, sc, token))
   \<and> (reachable node \<longrightarrow>
        token_count node \<le> 1 \<and> length (filter pending_token (scanners node)) \<le> 1)"
proof -
  have "reachable node \<longrightarrow>
        token_count node \<le> 1 \<and> length (filter pending_token (scanners node)) \<le> 1"
    using reachable_token_count [of node] by (auto simp: token_count_def)
  then show ?thesis
    by (simp add: acquire_pending_token_eq release_pending_token_eq)
qed

theorem pending_token_at_most_one_witness:
  "reachable
     \<lparr>status = OK, start = True, limit = - 1, num_rows_returned = 0,
      result_chunks_shutdown = False, scanner_submit_count = 0, running_threads = 2,
      thread_pool = \<lparr>accepted = [], try_offer_answers = (\<lambda>k. True), try_offer_calls = 0\<rparr>,
      pending_token_slot = False,
      scanners =
        [\<lparr>data_source = \<lparr>open_answers = (\<lambda>k. OK), open_calls = 0\<rparr>, is_open = False,
          keep_priority = False, pending_token = False\<rparr>,
         \<lparr>data_source = \<lparr>open_answers = (\<lambda>k. OK), open_calls = 0\<rparr>, is_open = False,
          keep_priority = False, pending_token = True\<rparr>]\<rparr>
   \<and> token_count
     \<lparr>status = OK, start = True, limit = - 1, num_rows_returned = 0,
      result_chunks_shutdown = False, scanner_submit_count = 0, running_threads = 2,
      thread_pool = \<lparr>accepted = [], try_offer_answers = (\<lambda>k. True), try_offer_calls = 0\<rparr>,
      pending_token_slot = False,
      scanners =
        [\<lparr>data_source = \<lparr>open_answers = (\<lambda>k. OK), open_calls = 0\<rparr>, is_open = False,
          keep_priority = False, pending_token = False\<rparr>,
         \<lparr>data_source = \<lparr>open_answers = (\<lambda>k. OK), open_calls = 0\<rparr>, is_open = False,
          keep_priority = False, pending_token = True\<rparr>]\<rparr> \<le> 1"
proof -
  let ?sc = "\<lparr>data_source = \<lparr>open_answers = (\<lambda>k. OK), open_calls = 0\<rparr>, is_open = False,
          keep_priority = False, pending_token = False\<rparr>"
  let ?node = "\<lparr>status = OK, start = True, limit = - 1, num_rows_returned = 0,
      result_chunks_shutdown = False, scanner_submit_count = 0, running_threads = 2,
      thread_pool = \<lparr>accepted = [], try_offer_answers = (\<lambda>k. True), try_offer_calls = 0\<rparr>,
      pending_token_slot = True, scanners = [?sc, ?sc]\<rparr>"
  let ?node1 = "?node\<lparr>scanners := (scanners ?node)[1 := ?sc\<lparr>pending_token := True\<rparr>],
                      pending_token_slot := False\<rparr>"
  have init: "reachable ?node"
    by (rule reachable.initial) simp
  have "acquire_pending_token (scanners ?node ! 1) (pending_token_slot ?node)
          = (True, ?sc\<lparr>pending_token := True\<rparr>, False)"
    by (simp add: acquire_pending_token_def atomic_cas_def compare_exchange_strong_def)
  then have "token_step ?node ?node1"
    by (intro token_step.acquire) simp_all
  with init have r: "reachable ?node1" by (rule reachable.step)
  then have "token_count ?node1 \<le> 1"
    using pending_token_at_most_one [of _ _ ?node1] by blast
  with r show ?thesis by simp
qed

text \<open>
  The bound also holds between the two atomic accesses of each operation: a worker that
  stands between them carries the token, and is counted with the slot and the scanners.
\<close>

lemma filter_empty_nth: "filter P xs = [] \<Longrightarrow> i < length xs \<Longrightarrow> \<not> P (xs ! i)"
  by (simp add: filter_empty_conv)

lemma token_access_preserves:
  assumes "token_access cfg cfg1"
    and "token_count (fst cfg) + length (filter (\<lambda>pc. pc \<noteq> Idle) (snd cfg)) \<le> 1"
  shows "token_count (fst cfg1) + length (filter (\<lambda>pc. pc \<noteq> Idle) (snd cfg1)) \<le> 1"
  using assms(1)
proof (cases rule: token_access.cases)
  case (exchange i node pcs res token)
  show ?thesis
  proof (cases "pending_token_slot node")
    case True
    then have "filter pending_token (scanners node) = []"
      using assms(2) exchange(1) by (simp add: token_count_def)
    then have "\<not> pending_token (scanners node ! i)"
      using exchange(3) by (rule filter_empty_nth)
    then have rt: "res" "\<not> token"
      using exchange(6) True by (simp_all add: compare_exchange_strong_def)
    from filter_update_count [OF exchange(4), of "\<lambda>pc. pc \<noteq> Idle" Swapped]
    have "length (filter (\<lambda>pc. pc \<noteq> Idle) (pcs[i := Swapped]))
            = length (filter (\<lambda>pc. pc \<noteq> Idle) pcs) + 1"
      using exchange(5) by simp
    then show ?thesis using exchange(1,2) assms(2) rt True
      by (simp add: token_count_def)
  next
    case False
    then have "\<not> res" "token = pending_token_slot node"
      using exchange(6) by (simp_all add: compare_exchange_strong_def)
    moreover have "pcs[i := Idle] = pcs" using exchange(5) by (metis list_update_id)
    ultimately show ?thesis using exchange(1,2) assms(2) by (simp add: token_count_def)
  qed
next
  case (store_expect i node pcs)
  from filter_update_count [OF store_expect(4), of "\<lambda>pc. pc \<noteq> Idle" Idle]
  have e1: "length (filter (\<lambda>pc. pc \<noteq> Idle) (pcs[i := Idle])) + 1
              = length (filter (\<lambda>pc. pc \<noteq> Idle) pcs)"
    using store_expect(5) by simp
  from filter_update_count [OF store_expect(3), of pending_token
      "(scanners node ! i)\<lparr>pending_token := True\<rparr>"]
  have e2: "length (filter pending_token
                ((scanners node)[i := (scanners node ! i)\<lparr>pending_token := True\<rparr>]))
              \<le> length (filter pending_token (scanners node)) + 1"
    by (simp split: if_splits)
  have "token_count (fst cfg1) + length (filter (\<lambda>pc. pc \<noteq> Idle) (snd cfg1))
          \<le> token_count (fst cfg) + length (filter (\<lambda>pc. pc \<noteq> Idle) (snd cfg))"
    using e1 e2 by (simp add: store_expect(1,2) token_count_def)
  then show ?thesis using assms(2) by (rule order_trans)
next
  case (clear_flag i node pcs)
  from filter_update_count [OF clear_flag(4), of "\<lambda>pc. pc \<noteq> Idle" Cleared]
  have e1: "length (filter (\<lambda>pc. pc \<noteq> Idle) (pcs[i := Cleared]))
              = length (filter (\<lambda>pc. pc \<noteq> Idle) pcs) + 1"
    using clear_flag(5) by simp
  from filter_update_count [OF clear_flag(3), of pending_token
      "(scanners node ! i)\<lparr>pending_token := False\<rparr>"]
  have e2: "length (filter pending_token
                ((scanners node)[i := (scanners node ! i)\<lparr>pending_token := False\<rparr>])) + 1
              = length (filter pending_token (scanners node))"
    using clear_flag(6) by simp
  have "token_count (fst cfg1) + length (filter (\<lambda>pc. pc \<noteq> Idle) (snd cfg1))
          \<le> token_count (fst cfg) + length (filter (\<lambda>pc. pc \<noteq> Idle) (snd cfg))"
    using e1 e2 by (simp add: clear_flag(1,2) token_count_def)
  then show ?thesis using assms(2) by (rule order_trans)
next
  case (store_slot i node pcs)
  from filter_update_count [OF store_slot(4), of "\<lambda>pc. pc \<noteq> Idle" Idle]
  have e1: "length (filter (\<lambda>pc. pc \<noteq> Idle) (pcs[i := Idle])) + 1
              = length (filter (\<lambda>pc. pc \<noteq> Idle) pcs)"
    using store_slot(5) by simp
  have "token_count (fst cfg1) + length (filter (\<lambda>pc. pc \<noteq> Idle) (snd cfg1))
          \<le> token_count (fst cfg) + length (filter (\<lambda>pc. pc \<noteq> Idle) (snd cfg))"
    using e1 by (simp add: store_slot(1,2) token_count_def)
  then show ?thesis using assms(2) by (rule order_trans)
qed

lemma reachable_access_token_count:
  "reachable_access cfg \<Longrightarrow>
   token_count (fst cfg) + length (filter (\<lambda>pc. pc \<noteq> Idle) (snd cfg)) \<le> 1"
proof (induction rule: reachable_access.induct)
  case (initial_access node pcs)
  then have "filter pending_token (scanners node) = []" "filter (\<lambda>pc. pc \<noteq> Idle) pcs = []"
    by (simp_all add: list_all_iff filter_empty_conv)
  then show ?case by (simp add: token_count_def)
next
  case (step_access cfg cfg1)
  then show ?case using token_access_preserves by blast
qed

section \<open>The consumer loop: properties\<close>

lemma update_status_simps [simp]:
  "limit (update_status st node) = limit node"
  "num_rows_returned (update_status st node) = num_rows_returned node"
  "result_chunks_shutdown (update_status st node) = result_chunks_shutdown node"
  "start (update_status st node) = start node"
  "status (update_status st node) = (if ok (status node) then st else status node)"
  by (simp_all add: update_status_def)

lemma get_next_started_step:
  assumes "limit_inv node"
    and "\<forall>c. queue_answer env = Some c \<longrightarrow> 0 \<le> chunk_num_rows c"
    and "get_next_started env node = (r, node1)"
  shows "limit node1 = limit node \<and> limit_inv node1
    \<and> min (num_rows_returned node) (limit node) + rows_observed r
        = min (num_rows_returned node1) (limit node)"
  using assms
  by (auto simp: get_next_started_def limit_inv_def Let_def reached_limit_def rows_observed_def
      ok_def split: option.splits if_splits)

lemma get_next_step:
  assumes "limit_inv node"
    and "\<forall>c. queue_answer env = Some c \<longrightarrow> 0 \<le> chunk_num_rows c"
    and "get_next env node = (r, node1)"
  shows "limit node1 = limit node \<and> limit_inv node1
    \<and> min (num_rows_returned node) (limit node) + rows_observed r
        = min (num_rows_returned node1) (limit node)"
proof -
  let ?n = "update_status (worker_status_entry env) node"
  have inv0: "limit_inv ?n" using assms(1) by (auto simp: limit_inv_def ok_def)
  show ?thesis
  proof (cases "\<not> start ?n \<and> ok (status ?n)")
    case True
    let ?n1 = "(update_status (start_scan_status env) ?n)\<lparr>start := True\<rparr>"
    have inv1: "limit_inv ?n1" using inv0 by (auto simp: limit_inv_def ok_def)
    show ?thesis
    proof (cases "ok (start_scan_status env)")
      case False
      with True assms(3) have "r = \<lparr>returned = start_scan_status env, chunk = None, eos = None\<rparr>"
        "node1 = ?n1"
        by (simp_all add: get_next_def Let_def)
      then show ?thesis using inv1 by (simp add: rows_observed_def)
    next
      case ok1: True
      with True assms(3) have "get_next_started env ?n1 = (r, node1)"
        by (simp add: get_next_def Let_def)
      from get_next_started_step [OF inv1 assms(2) this] show ?thesis by simp
    qed
  next
    case False
    show ?thesis
    proof (cases "start ?n")
      case True
      with False assms(3) have "get_next_started env ?n = (r, node1)"
        by (auto simp add: get_next_def Let_def)
      from get_next_started_step [OF inv0 assms(2) this] show ?thesis by simp
    next
      case nst: False
      let ?n2 = "?n\<lparr>result_chunks_shutdown := True, start := True\<rparr>"
      have inv2: "limit_inv ?n2" using inv0 by (auto simp: limit_inv_def ok_def)
      from nst False assms(3) have "get_next_started env ?n2 = (r, node1)"
        by (auto simp add: get_next_def Let_def)
      from get_next_started_step [OF inv2 assms(2) this] show ?thesis by simp
    qed
  qed
qed

lemma consume_total:
  assumes "limit_inv node"
    and "\<forall>env \<in> set envs. \<forall>c. queue_answer env = Some c \<longrightarrow> 0 \<le> chunk_num_rows c"
    and "consume envs node = (rows, node1)"
  shows "limit node1 = limit node \<and> limit_inv node1
    \<and> min (num_rows_returned node) (limit node) + rows
        = min (num_rows_returned node1) (limit node)"
  using assms
proof (induction envs arbitrary: node rows node1)
  case Nil
  then show ?case by simp
next
  case (Cons env envs)
  obtain r n1 where g: "get_next env node = (r, n1)" by (cases "get_next env node")
  obtain t n2 where c: "consume envs n1 = (t, n2)" by (cases "consume envs n1")
  from Cons.prems(3) g c have tot: "rows = rows_observed r + t" "node1 = n2" by simp_all
  from Cons.prems(2) have e: "\<forall>c. queue_answer env = Some c \<longrightarrow> 0 \<le> chunk_num_rows c"
    and es: "\<forall>env \<in> set envs. \<forall>c. queue_answer env = Some c \<longrightarrow> 0 \<le> chunk_num_rows c"
    by simp_all
  from get_next_step [OF Cons.prems(1) e g]
  have s1: "limit n1 = limit node" "limit_inv n1"
    "min (num_rows_returned node) (limit node) + rows_observed r = min (num_rows_returned n1) (limit node)"
    by simp_all
  from Cons.IH [OF s1(2) es c]
  have s2: "limit n2 = limit n1" "limit_inv n2"
    "min (num_rows_returned n1) (limit n1) + t = min (num_rows_returned n2) (limit n1)"
    by simp_all
  show ?case using s1 s2 tot by simp
qed

lemma get_next_started_truncates:
  assumes "get_next_started env node = (r, node1)"
    and "returned r = OK" and "chunk r \<noteq> None" and "reached_limit node1"
  shows "result_chunks_shutdown node1
    \<and> status node1 = (if ok (worker_status_waiting env) then EndOfFile else worker_status_waiting env)
    \<and> eos r = Some False
    \<and> (\<exists>c. queue_answer env = Some c
          \<and> chunk r = Some (c\<lparr>chunk_num_rows := limit node - num_rows_returned node\<rparr>))"
  using assms
  by (auto simp: get_next_started_def Let_def reached_limit_def ok_def
      split: option.splits if_splits)

lemma get_next_truncates:
  assumes "get_next env node = (r, node1)"
    and "returned r = OK" and "chunk r \<noteq> None" and "reached_limit node1"
  shows "result_chunks_shutdown node1
    \<and> status node1 = (if ok (worker_status_waiting env) then EndOfFile else worker_status_waiting env)
    \<and> eos r = Some False
    \<and> (\<exists>c. queue_answer env = Some c
          \<and> chunk r = Some (c\<lparr>chunk_num_rows := limit node - num_rows_returned node\<rparr>))"
proof -
  let ?n = "update_status (worker_status_entry env) node"
  consider (a) "\<not> start ?n" "ok (status ?n)" "\<not> ok (start_scan_status env)"
    | (b) "\<not> start ?n" "ok (status ?n)" "ok (start_scan_status env)"
    | (c) "\<not> start ?n" "\<not> ok (status ?n)"
    | (d) "start ?n"
    by blast
  then show ?thesis
  proof cases
    case a
    then have "chunk r = None" using assms(1) by (auto simp: get_next_def Let_def)
    with assms(3) show ?thesis by simp
  next
    case b
    then have "get_next_started env ((update_status (start_scan_status env) ?n)\<lparr>start := True\<rparr>)
                 = (r, node1)"
      using assms(1) by (simp add: get_next_def Let_def)
    from get_next_started_truncates [OF this assms(2,3,4)] show ?thesis by simp
  next
    case c
    then have "get_next_started env (?n\<lparr>result_chunks_shutdown := True, start := True\<rparr>)
                 = (r, node1)"
      using assms(1) by (simp add: get_next_def Let_def)
    from get_next_started_truncates [OF this assms(2,3,4)] show ?thesis by simp
  next
    case d
    then have "get_next_started env ?n = (r, node1)"
      using assms(1) by (simp add: get_next_def Let_def)
    from get_next_started_truncates [OF this assms(2,3,4)] show ?thesis by simp
  qed
qed

text \<open>
  Claim C4. Take a node with a limit, that has returned no rows yet, and any run of calls
  of \<^verbatim>\<open>get_next\<close>, whatever the workers, the queue and the start-up do, with chunks
  of a non-negative number of rows. The rows that the consumer observes over the run never
  exceed the limit, and they are exactly the limit once the rows counted have reached it.
  In the call in which the count reaches the limit, the chunk handed out is cut down to
  the rows still missing, so that the rows observed so far are exactly the limit;
  \<^verbatim>\<open>_update_status\<close> is called with end-of-file, which becomes the status of the node
  unless a worker has reported an error during the call; and the result queue is shut
  down.
\<close>

theorem get_next_limit:
  assumes "0 \<le> limit node" and "num_rows_returned node = 0"
    and "\<forall>e \<in> set (envs @ [env]). \<forall>c. queue_answer e = Some c \<longrightarrow> 0 \<le> chunk_num_rows c"
  shows "fst (consume envs node) \<le> limit node
    \<and> (reached_limit (snd (consume envs node)) \<longrightarrow> fst (consume envs node) = limit node)
    \<and> (let (rows, node1) = consume envs node;
            (r, node2) = get_next env node1
        in returned r = OK \<and> chunk r \<noteq> None \<and> reached_limit node2 \<longrightarrow>
             rows + rows_observed r = limit node
             \<and> (\<exists>c. queue_answer env = Some c
                   \<and> chunk r = Some (c\<lparr>chunk_num_rows := limit node - num_rows_returned node1\<rparr>))
             \<and> status node2
                 = (if ok (worker_status_waiting env) then EndOfFile else worker_status_waiting env)
             \<and> result_chunks_shutdown node2)"
proof -
  obtain rows node1 where c: "consume envs node = (rows, node1)" by (cases "consume envs node")
  obtain r node2 where g: "get_next env node1 = (r, node2)" by (cases "get_next env node1")
  have inv: "limit_inv node" using assms(1,2) by (simp add: limit_inv_def)
  have es: "\<forall>e \<in> set envs. \<forall>c. queue_answer e = Some c \<longrightarrow> 0 \<le> chunk_num_rows c"
    and e: "\<forall>c. queue_answer env = Some c \<longrightarrow> 0 \<le> chunk_num_rows c"
    using assms(3) by simp_all
  from consume_total [OF inv es c]
  have s1: "limit node1 = limit node" "limit_inv node1"
    "rows = min (num_rows_returned node1) (limit node)"
    using assms(1,2) by simp_all
  from get_next_step [OF s1(2) e g]
  have s2: "limit node2 = limit node"
    "min (num_rows_returned node1) (limit node) + rows_observed r
       = min (num_rows_returned node2) (limit node)"
    using s1(1) by simp_all
  have A: "rows \<le> limit node" using s1(3) by simp
  have C: "reached_limit node1 \<longrightarrow> rows = limit node"
    using s1(1,3) by (simp add: reached_limit_def)
  have B: "returned r = OK \<and> chunk r \<noteq> None \<and> reached_limit node2 \<longrightarrow>
             rows + rows_observed r = limit node
             \<and> (\<exists>c. queue_answer env = Some c
                   \<and> chunk r = Some (c\<lparr>chunk_num_rows := limit node - num_rows_returned node1\<rparr>))
             \<and> status node2
                 = (if ok (worker_status_waiting env) then EndOfFile else worker_status_waiting env)
             \<and> result_chunks_shutdown node2"
  proof (intro impI, elim conjE)
    assume h: "returned r = OK" "chunk r \<noteq> None" "reached_limit node2"
    from get_next_truncates [OF g h]
    have t: "result_chunks_shutdown node2"
      "status node2 = (if ok (worker_status_waiting env) then EndOfFile else worker_status_waiting env)"
      "\<exists>c. queue_answer env = Some c
          \<and> chunk r = Some (c\<lparr>chunk_num_rows := limit node1 - num_rows_returned node1\<rparr>)"
      by simp_all
    have "rows + rows_observed r = limit node"
      using s1(3) s2 h(3) by (simp add: reached_limit_def)
    then show "rows + rows_observed r = limit node
             \<and> (\<exists>c. queue_answer env = Some c
                   \<and> chunk r = Some (c\<lparr>chunk_num_rows := limit node - num_rows_returned node1\<rparr>))
             \<and> status node2
                 = (if ok (worker_status_waiting env) then EndOfFile else worker_status_waiting env)
             \<and> result_chunks_shutdown node2"
      using t s1(1) by simp
  qed
  show ?thesis using A B C by (simp add: c g)
qed

theorem get_next_limit_witness:
  "fst (consume
     [\<lparr>worker_status_entry = OK, start_scan_status = OK, worker_status_started = OK,
       worker_status_waiting = OK, queue_answer = Some \<lparr>chunk_num_rows = 1024\<rparr>,
       fill_bad_alloc = False\<rparr>]
     \<lparr>status = OK, start = False, limit = 1500, num_rows_returned = 0,
      result_chunks_shutdown = False, scanner_submit_count = 0, running_threads = 0,
      thread_pool = \<lparr>accepted = [], try_offer_answers = (\<lambda>k. True), try_offer_calls = 0\<rparr>,
      pending_token_slot = True, scanners = []\<rparr>) \<le> 1500
   \<and> consume
     [\<lparr>worker_status_entry = OK, start_scan_status = OK, worker_status_started = OK,
       worker_status_waiting = OK, queue_answer = Some \<lparr>chunk_num_rows = 1024\<rparr>,
       fill_bad_alloc = False\<rparr>,
      \<lparr>worker_status_entry = OK, start_scan_status = OK, worker_status_started = OK,
       worker_status_waiting = OK, queue_answer = Some \<lparr>chunk_num_rows = 1024\<rparr>,
       fill_bad_alloc = False\<rparr>,
      \<lparr>worker_status_entry = OK, start_scan_status = OK, worker_status_started = OK,
       worker_status_waiting = OK, queue_answer = Some \<lparr>chunk_num_rows = 1024\<rparr>,
       fill_bad_alloc = False\<rparr>]
     \<lparr>status = OK, start = False, limit = 1500, num_rows_returned = 0,
      result_chunks_shutdown = False, scanner_submit_count = 0, running_threads = 0,
      thread_pool = \<lparr>accepted = [], try_offer_answers = (\<lambda>k. True), try_offer_calls = 0\<rparr>,
      pending_token_slot = True, scanners = []\<rparr>
     = (1500,
        \<lparr>status = EndOfFile, start = True, limit = 1500, num_rows_returned = 2048,
         result_chunks_shutdown = True, scanner_submit_count = 0, running_threads = 0,
         thread_pool = \<lparr>accepted = [], try_offer_answers = (\<lambda>k. True), try_offer_calls = 0\<rparr>,
         pending_token_slot = True, scanners = []\<rparr>)"
proof -
  let ?e = "\<lparr>worker_status_entry = OK, start_scan_status = OK, worker_status_started = OK,
       worker_status_waiting = OK, queue_answer = Some \<lparr>chunk_num_rows = 1024\<rparr>,
       fill_bad_alloc = False\<rparr>"
  let ?node = "\<lparr>status = OK, start = False, limit = 1500, num_rows_returned = 0,
      result_chunks_shutdown = False, scanner_submit_count = 0, running_threads = 0,
      thread_pool = \<lparr>accepted = [], try_offer_answers = (\<lambda>k. True), try_offer_calls = 0\<rparr>,
      pending_token_slot = True, scanners = []\<rparr>"
  have "fst (consume [?e] ?node) \<le> limit ?node"
    using get_next_limit [of ?node "[?e]" ?e] by simp
  moreover have "consume [?e, ?e, ?e] ?node
     = (1500, ?node\<lparr>status := EndOfFile, start := True, num_rows_returned := 2048,
                      result_chunks_shutdown := True\<rparr>)"
    by (simp add: get_next_def get_next_started_def update_status_def reached_limit_def
        rows_observed_def ok_def is_end_of_file_def Let_def)
  ultimately show ?thesis by simp
qed

section \<open>Writing metadata and logs: properties\<close>

lemma fill_metacache_result:
  "fst (fill_metacache key v mgr) = (key \<notin> refused (metacache mgr))"
  by (simp add: fill_metacache_def)

lemma put_tablet_metadata_status:
  "fst (put_tablet_metadata md mgr) =
     (let loc = tablet_metadata_location (tablet_id md) (version md)
      in if loc \<in> open_fails (fs mgr) \<or> loc \<in> append_fails (fs mgr) \<or> loc \<in> close_fails (fs mgr)
         then IOError else OK)"
  by (simp add: put_tablet_metadata_def new_writable_file_def wf_append_def wf_close_def Let_def
      ok_def split: prod.splits)

lemma put_txn_log_status:
  "fst (put_txn_log l mgr) =
     (case log_tablet_id l of
        None \<Rightarrow> InvalidArgument
      | Some tablet \<Rightarrow>
          (case log_txn_id l of
             None \<Rightarrow> InvalidArgument
           | Some txn \<Rightarrow>
               (let loc = txn_log_location tablet txn
                in if loc \<in> open_fails (fs mgr) \<or> loc \<in> append_fails (fs mgr)
                      \<or> loc \<in> close_fails (fs mgr)
                   then IOError else OK)))"
  by (simp add: put_txn_log_def new_writable_file_def wf_append_def wf_close_def Let_def
      ok_def split: prod.splits option.splits)

text \<open>
  Claim C10. A refused insertion into the metadata cache never fails the write around it.
  When the writable file of a metadata object opens, takes the serialised metadata and
  closes, \<^verbatim>\<open>put_tablet_metadata\<close> returns \<open>OK\<close> also when \<^verbatim>\<open>fill_metacache\<close>
  returns false: the object holds the metadata and the cache is as it was. The same holds
  for \<^verbatim>\<open>put_txn_log\<close> on a log that has its tablet id and transaction id (a log
  without them is rejected before anything is opened). The status of both operations
  does not depend on the cache at all.
\<close>

theorem cache_insert_never_fails_write:
  "(\<forall>loc. loc = tablet_metadata_location (tablet_id md) (version md)
       \<and> loc \<notin> open_fails (fs mgr) \<and> loc \<notin> append_fails (fs mgr) \<and> loc \<notin> close_fails (fs mgr)
       \<and> \<not> fst (fill_metacache loc (MetadataValue md) mgr) \<longrightarrow>
       fst (put_tablet_metadata md mgr) = OK
       \<and> files (fs (snd (put_tablet_metadata md mgr))) loc = Some (MetadataFile md)
       \<and> metacache (snd (put_tablet_metadata md mgr)) = metacache mgr)
   \<and> (\<forall>loc tablet txn. log_tablet_id l = Some tablet \<and> log_txn_id l = Some txn
       \<and> loc = txn_log_location tablet txn
       \<and> loc \<notin> open_fails (fs mgr) \<and> loc \<notin> append_fails (fs mgr) \<and> loc \<notin> close_fails (fs mgr)
       \<and> \<not> fst (fill_metacache loc (TxnLogValue l) mgr) \<longrightarrow>
       fst (put_txn_log l mgr) = OK
       \<and> files (fs (snd (put_txn_log l mgr))) loc = Some (TxnLogFile l)
       \<and> metacache (snd (put_txn_log l mgr)) = metacache mgr)
   \<and> fst (put_tablet_metadata md (mgr\<lparr>metacache := c\<rparr>)) = fst (put_tablet_metadata md mgr)
   \<and> fst (put_txn_log l (mgr\<lparr>metacache := c\<rparr>)) = fst (put_txn_log l mgr)"
proof (intro conjI allI impI)
  show "fst (put_tablet_metadata md (mgr\<lparr>metacache := c\<rparr>)) = fst (put_tablet_metadata md mgr)"
    by (simp add: put_tablet_metadata_status Let_def)
  show "fst (put_txn_log l (mgr\<lparr>metacache := c\<rparr>)) = fst (put_txn_log l mgr)"
    by (simp add: put_txn_log_status Let_def split: option.splits)
next
  fix loc
  assume "loc = tablet_metadata_location (tablet_id md) (version md)
       \<and> loc \<notin> open_fails (fs mgr) \<and> loc \<notin> append_fails (fs mgr) \<and> loc \<notin> close_fails (fs mgr)
       \<and> \<not> fst (fill_metacache loc (MetadataValue md) mgr)"
  then have h: "tablet_metadata_location (tablet_id md) (version md) \<notin> open_fails (fs mgr)"
    "tablet_metadata_location (tablet_id md) (version md) \<notin> append_fails (fs mgr)"
    "tablet_metadata_location (tablet_id md) (version md) \<notin> close_fails (fs mgr)"
    "tablet_metadata_location (tablet_id md) (version md) \<in> refused (metacache mgr)"
    and loc: "loc = tablet_metadata_location (tablet_id md) (version md)"
    by (auto simp: fill_metacache_result)
  show "fst (put_tablet_metadata md mgr) = OK"
    using h by (simp add: put_tablet_metadata_status Let_def)
  show "files (fs (snd (put_tablet_metadata md mgr))) loc = Some (MetadataFile md)"
    using h unfolding loc
    by (simp add: put_tablet_metadata_def new_writable_file_def wf_append_def wf_close_def
        fill_metacache_def Let_def ok_def)
  show "metacache (snd (put_tablet_metadata md mgr)) = metacache mgr"
    using h
    by (simp add: put_tablet_metadata_def new_writable_file_def wf_append_def wf_close_def
        fill_metacache_def Let_def ok_def)
next
  fix loc tablet txn
  assume "log_tablet_id l = Some tablet \<and> log_txn_id l = Some txn
       \<and> loc = txn_log_location tablet txn
       \<and> loc \<notin> open_fails (fs mgr) \<and> loc \<notin> append_fails (fs mgr) \<and> loc \<notin> close_fails (fs mgr)
       \<and> \<not> fst (fill_metacache loc (TxnLogValue l) mgr)"
  then have h: "log_tablet_id l = Some tablet" "log_txn_id l = Some txn"
    "txn_log_location tablet txn \<notin> open_fails (fs mgr)"
    "txn_log_location tablet txn \<notin> append_fails (fs mgr)"
    "txn_log_location tablet txn \<notin> close_fails (fs mgr)"
    "txn_log_location tablet txn \<in> refused (metacache mgr)"
    and loc: "loc = txn_log_location tablet txn"
    by (auto simp: fill_metacache_result)
  show "fst (put_txn_log l mgr) = OK"
    using h by (simp add: put_txn_log_status Let_def)
  show "files (fs (snd (put_txn_log l mgr))) loc = Some (TxnLogFile l)"
    using h unfolding loc
    by (simp add: put_txn_log_def new_writable_file_def wf_append_def wf_close_def
        fill_metacache_def Let_def ok_def)
  show "metacache (snd (put_txn_log l mgr)) = metacache mgr"
    using h
    by (simp add: put_txn_log_def new_writable_file_def wf_append_def wf_close_def
        fill_metacache_def Let_def ok_def)
qed

theorem cache_insert_never_fails_write_witness:
  "\<not> fst (fill_metacache (TabletMetadataLocation 7 6)
        (MetadataValue \<lparr>tablet_id = 7, version = 6, next_rowset_id = 1, rowsets = []\<rparr>)
        \<lparr>fs = \<lparr>files = Map.empty, unreadable = {}, open_fails = {}, append_fails = {},
               close_fails = {}, delete_fails = {}, fs_log = []\<rparr>,
         metacache = \<lparr>entries = Map.empty, refused = {TabletMetadataLocation 7 6}\<rparr>,
         fill_cache_default = True\<rparr>)
   \<and> fst (put_tablet_metadata \<lparr>tablet_id = 7, version = 6, next_rowset_id = 1, rowsets = []\<rparr>
        \<lparr>fs = \<lparr>files = Map.empty, unreadable = {}, open_fails = {}, append_fails = {},
               close_fails = {}, delete_fails = {}, fs_log = []\<rparr>,
         metacache = \<lparr>entries = Map.empty, refused = {TabletMetadataLocation 7 6}\<rparr>,
         fill_cache_default = True\<rparr>) = OK"
proof -
  let ?md = "\<lparr>tablet_id = 7, version = 6, next_rowset_id = 1, rowsets = []\<rparr>"
  let ?mgr = "\<lparr>fs = \<lparr>files = Map.empty, unreadable = {}, open_fails = {}, append_fails = {},
               close_fails = {}, delete_fails = {}, fs_log = []\<rparr>,
         metacache = \<lparr>entries = Map.empty, refused = {TabletMetadataLocation 7 6}\<rparr>,
         fill_cache_default = True\<rparr>"
  have r: "\<not> fst (fill_metacache (TabletMetadataLocation 7 6) (MetadataValue ?md) ?mgr)"
    by (simp add: fill_metacache_def)
  have "\<forall>loc. loc = tablet_metadata_location (tablet_id ?md) (version ?md)
       \<and> loc \<notin> open_fails (fs ?mgr) \<and> loc \<notin> append_fails (fs ?mgr) \<and> loc \<notin> close_fails (fs ?mgr)
       \<and> \<not> fst (fill_metacache loc (MetadataValue ?md) ?mgr) \<longrightarrow>
       fst (put_tablet_metadata ?md ?mgr) = OK
       \<and> files (fs (snd (put_tablet_metadata ?md ?mgr))) loc = Some (MetadataFile ?md)
       \<and> metacache (snd (put_tablet_metadata ?md ?mgr)) = metacache ?mgr"
    using cache_insert_never_fails_write [of ?md ?mgr] by (rule conjunct1)
  from this [rule_format, of "TabletMetadataLocation 7 6"] r
  have "fst (put_tablet_metadata ?md ?mgr) = OK"
    by (simp add: tablet_metadata_location_def)
  with r show ?thesis by simp
qed

section \<open>Publish: properties\<close>

lemma reads_only_refl: "reads_only mgr mgr"
  by (simp add: reads_only_def)

lemma reads_only_trans: "reads_only a b \<Longrightarrow> reads_only b c \<Longrightarrow> reads_only a c"
  by (simp add: reads_only_def)

lemma fst_get_tablet_metadata:
  "fst (get_tablet_metadata tablet v mgr) = metadata_view mgr (TabletMetadataLocation tablet v)"
  by (simp add: get_tablet_metadata_def get_tablet_metadata_path_def load_tablet_metadata_def
      read_file_def fill_metacache_def metadata_view_def tablet_metadata_location_def Let_def
      split: option.splits sum.splits FileContent.splits prod.splits)

lemma fst_get_txn_log:
  "fst (get_txn_log tablet txn mgr) = txn_log_view mgr (TxnLogLocation tablet txn)"
  by (simp add: get_txn_log_def get_txn_log_path_def load_txn_log_def
      read_file_def fill_metacache_def txn_log_view_def txn_log_location_def Let_def
      split: option.splits sum.splits FileContent.splits prod.splits)

lemma get_tablet_metadata_reads_only:
  "reads_only mgr (snd (get_tablet_metadata tablet v mgr))"
  by (auto simp: reads_only_def get_tablet_metadata_def get_tablet_metadata_path_def
      load_tablet_metadata_def read_file_def fill_metacache_def metadata_view_def txn_log_view_def
      lookup_tablet_metadata_def lookup_txn_log_def
      tablet_metadata_location_def writes_def Let_def
      split: option.splits sum.splits FileContent.splits prod.splits CacheValue.splits if_splits)

lemma get_txn_log_reads_only:
  "reads_only mgr (snd (get_txn_log tablet txn mgr))"
  by (auto simp: reads_only_def get_txn_log_def get_txn_log_path_def
      load_txn_log_def read_file_def fill_metacache_def metadata_view_def txn_log_view_def
      lookup_tablet_metadata_def lookup_txn_log_def
      txn_log_location_def writes_def Let_def
      split: option.splits sum.splits FileContent.splits prod.splits CacheValue.splits if_splits)

lemma tablet_get_metadata_view:
  "fst (tablet_get_metadata tablet v mgr) = metadata_view mgr (TabletMetadataLocation tablet v)"
  by (simp add: tablet_get_metadata_def fst_get_tablet_metadata)

lemma tablet_get_txn_log_view:
  "fst (tablet_get_txn_log tablet txn mgr) = txn_log_view mgr (TxnLogLocation tablet txn)"
  by (simp add: tablet_get_txn_log_def fst_get_txn_log)

lemma tablet_get_metadata_reads_only:
  "reads_only mgr (snd (tablet_get_metadata tablet v mgr))"
  by (simp add: tablet_get_metadata_def get_tablet_metadata_reads_only)

lemma tablet_get_txn_log_reads_only:
  "reads_only mgr (snd (tablet_get_txn_log tablet txn mgr))"
  by (simp add: tablet_get_txn_log_def get_txn_log_reads_only)

lemma apply_txn_logs_reads_only:
  "reads_only mgr (snd (apply_txn_logs tablet new_version txns md mgr))"
proof (induction txns arbitrary: md mgr)
  case Nil
  show ?case by (simp add: reads_only_refl)
next
  case (Cons txnid txns)
  obtain txnlog mgr1 where g: "tablet_get_txn_log tablet txnid mgr = (txnlog, mgr1)"
    by (cases "tablet_get_txn_log tablet txnid mgr")
  have r1: "reads_only mgr mgr1"
    using tablet_get_txn_log_reads_only [of mgr tablet txnid] g by simp
  show ?case
  proof (cases txnlog)
    case (Inl st)
    obtain res mgr2 where g2: "tablet_get_metadata tablet new_version mgr1 = (res, mgr2)"
      by (cases "tablet_get_metadata tablet new_version mgr1")
    have "reads_only mgr1 mgr2"
      using tablet_get_metadata_reads_only [of mgr1 tablet new_version] g2 by simp
    with r1 have "reads_only mgr mgr2" by (rule reads_only_trans)
    then show ?thesis using Inl g g2 r1 by simp
  next
    case (Inr l)
    show ?thesis
    proof (cases "apply_txn_log l md")
      case None
      then show ?thesis using Inr g r1 by simp
    next
      case (Some p)
      obtain st md1 where p: "p = (st, md1)" by (cases p)
      have "reads_only mgr1 (snd (apply_txn_logs tablet new_version txns md1 mgr1))"
        by (rule Cons.IH)
      with r1 have "reads_only mgr (snd (apply_txn_logs tablet new_version txns md1 mgr1))"
        by (rule reads_only_trans)
      then show ?thesis using Inr g r1 Some p by simp
    qed
  qed
qed

lemma delete_txn_log_metadata_view:
  "metadata_view (snd (tablet_delete_txn_log tablet txn mgr)) (TabletMetadataLocation a b)
     = metadata_view mgr (TabletMetadataLocation a b)"
  by (simp add: tablet_delete_txn_log_def delete_txn_log_def delete_file_def erase_metacache_def
      metadata_view_def lookup_tablet_metadata_def txn_log_location_def Let_def
      split: option.splits prod.splits)

lemma delete_txn_logs_metadata_view:
  "metadata_view (delete_txn_logs tablet txns mgr) (TabletMetadataLocation a b)
     = metadata_view mgr (TabletMetadataLocation a b)"
  by (induction txns arbitrary: mgr) (simp_all add: delete_txn_log_metadata_view)

lemma put_tablet_metadata_view:
  assumes "fst (put_tablet_metadata md mgr) = OK"
    and "metadata_view mgr key = Inr b"
  shows "metadata_view (snd (put_tablet_metadata md mgr)) key = Inr b
       \<or> metadata_view (snd (put_tablet_metadata md mgr)) key = Inr md"
  using assms
  by (auto simp: put_tablet_metadata_def new_writable_file_def wf_append_def wf_close_def
      fill_metacache_def metadata_view_def lookup_tablet_metadata_def ok_def Let_def
      split: option.splits prod.splits if_splits CacheValue.splits FileContent.splits)

lemma put_tablet_metadata_stored:
  assumes "fst (put_tablet_metadata md mgr) = OK"
  shows "files (fs (snd (put_tablet_metadata md mgr)))
           (TabletMetadataLocation (tablet_id md) (version md)) = Some (MetadataFile md)
    \<and> (TabletMetadataLocation (tablet_id md) (version md) \<notin> refused (metacache mgr) \<longrightarrow>
         entries (metacache (snd (put_tablet_metadata md mgr)))
           (TabletMetadataLocation (tablet_id md) (version md)) = Some (MetadataValue md))
    \<and> refused (metacache (snd (put_tablet_metadata md mgr))) = refused (metacache mgr)
    \<and> open_fails (fs (snd (put_tablet_metadata md mgr))) = open_fails (fs mgr)
    \<and> append_fails (fs (snd (put_tablet_metadata md mgr))) = append_fails (fs mgr)
    \<and> close_fails (fs (snd (put_tablet_metadata md mgr))) = close_fails (fs mgr)"
  using assms
  by (auto simp: put_tablet_metadata_def new_writable_file_def wf_append_def wf_close_def
      fill_metacache_def ok_def Let_def tablet_metadata_location_def
      split: option.splits prod.splits if_splits)

lemma put_tablet_metadata_again:
  assumes "fst (put_tablet_metadata md mgr) = OK"
    and "files (fs mgr) (TabletMetadataLocation (tablet_id md) (version md)) = Some (MetadataFile md)"
    and "TabletMetadataLocation (tablet_id md) (version md) \<notin> refused (metacache mgr) \<longrightarrow>
         entries (metacache mgr) (TabletMetadataLocation (tablet_id md) (version md))
           = Some (MetadataValue md)"
  shows "files (fs (snd (put_tablet_metadata md mgr))) = files (fs mgr)
    \<and> metadata_view (snd (put_tablet_metadata md mgr)) key = metadata_view mgr key"
  using assms
  by (auto simp: put_tablet_metadata_def new_writable_file_def wf_append_def wf_close_def
      fill_metacache_def metadata_view_def lookup_tablet_metadata_def ok_def Let_def
      tablet_metadata_location_def fun_upd_idem
      split: option.splits prod.splits if_splits CacheValue.splits FileContent.splits)

lemma metadata_view_not_OK: "metadata_view mgr key \<noteq> Inl OK"
  by (simp add: metadata_view_def split: option.splits FileContent.splits)

lemma reads_only_metadata_view:
  "reads_only mgr mgr1 \<Longrightarrow>
   metadata_view mgr1 (TabletMetadataLocation tablet v)
     = metadata_view mgr (TabletMetadataLocation tablet v)"
  by (simp add: reads_only_def)

lemma reads_only_txn_log_view:
  "reads_only mgr mgr1 \<Longrightarrow>
   txn_log_view mgr1 (TxnLogLocation tablet txn) = txn_log_view mgr (TxnLogLocation tablet txn)"
  by (simp add: reads_only_def)

lemma apply_txn_logs_append:
  "apply_txn_logs tablet new_version (pre @ post) md mgr =
     (case apply_txn_logs tablet new_version pre md mgr of
        (Some (Inr md1), mgr1) \<Rightarrow> apply_txn_logs tablet new_version post md1 mgr1
      | other \<Rightarrow> other)"
proof (induction pre arbitrary: md mgr)
  case Nil
  show ?case by simp
next
  case (Cons txnid pre)
  show ?case
    by (simp add: Cons.IH Let_def split: prod.splits sum.splits option.splits)
qed

text \<open>
  The two early exits of \<^verbatim>\<open>publish\<close>: the base metadata is not found, or a log is not
  found after the logs before it have been applied, and the metadata of the new version
  can be read. Only reads have happened when \<^verbatim>\<open>publish\<close> returns.
\<close>

lemma publish_base_not_found:
  assumes "fst (tablet_get_metadata tablet base_version mgr) = Inl NotFound"
    and "has_value (fst (tablet_get_metadata tablet new_version mgr))"
  shows "\<exists>mgr1. publish tablet base_version new_version txns mgr = (Some OK, mgr1)
           \<and> reads_only mgr mgr1"
proof -
  obtain r m1 where g1: "tablet_get_metadata tablet base_version mgr = (r, m1)"
    by (cases "tablet_get_metadata tablet base_version mgr")
  obtain r2 m2 where g2: "tablet_get_metadata tablet new_version m1 = (r2, m2)"
    by (cases "tablet_get_metadata tablet new_version m1")
  have r: "r = Inl NotFound" using assms(1) g1 by simp
  have ro1: "reads_only mgr m1" using tablet_get_metadata_reads_only [of mgr tablet base_version] g1 by simp
  have ro2: "reads_only m1 m2" using tablet_get_metadata_reads_only [of m1 tablet new_version] g2 by simp
  have "r2 = metadata_view m1 (TabletMetadataLocation tablet new_version)"
    using tablet_get_metadata_view [of tablet new_version m1] g2 by simp
  also have "\<dots> = metadata_view mgr (TabletMetadataLocation tablet new_version)"
    using ro1 by (rule reads_only_metadata_view)
  finally have "has_value r2" using assms(2) by (simp add: tablet_get_metadata_view)
  then have "publish tablet base_version new_version txns mgr = (Some OK, m2)"
    using g1 g2 r by (simp add: publish_def is_not_found_def)
  moreover have "reads_only mgr m2" using ro1 ro2 by (rule reads_only_trans)
  ultimately show ?thesis by blast
qed

lemma publish_log_not_found:
  assumes "fst (tablet_get_metadata tablet base_version mgr) = Inr b"
    and "apply_txn_logs tablet new_version pre (b\<lparr>version := new_version\<rparr>)
           (snd (tablet_get_metadata tablet base_version mgr)) = (Some (Inr md1), m1)"
    and "fst (tablet_get_txn_log tablet txn mgr) = Inl NotFound"
    and "has_value (fst (tablet_get_metadata tablet new_version mgr))"
  shows "\<exists>mgr1. publish tablet base_version new_version (pre @ txn # post) mgr = (Some OK, mgr1)
           \<and> reads_only mgr mgr1"
proof -
  obtain m0 where g0: "tablet_get_metadata tablet base_version mgr = (Inr b, m0)"
    using assms(1) by (cases "tablet_get_metadata tablet base_version mgr") simp
  have ro0: "reads_only mgr m0"
    using tablet_get_metadata_reads_only [of mgr tablet base_version] g0 by simp
  have a: "apply_txn_logs tablet new_version pre (b\<lparr>version := new_version\<rparr>) m0
             = (Some (Inr md1), m1)"
    using assms(2) g0 by simp
  have ro1: "reads_only m0 m1"
    using apply_txn_logs_reads_only [of m0 tablet new_version pre "b\<lparr>version := new_version\<rparr>"] a
    by simp
  have rom1: "reads_only mgr m1" using ro0 ro1 by (rule reads_only_trans)
  obtain l m2 where g2: "tablet_get_txn_log tablet txn m1 = (l, m2)"
    by (cases "tablet_get_txn_log tablet txn m1")
  have ro2: "reads_only m1 m2" using tablet_get_txn_log_reads_only [of m1 tablet txn] g2 by simp
  have rom2: "reads_only mgr m2" using rom1 ro2 by (rule reads_only_trans)
  have "l = txn_log_view m1 (TxnLogLocation tablet txn)"
    using tablet_get_txn_log_view [of tablet txn m1] g2 by simp
  also have "\<dots> = txn_log_view mgr (TxnLogLocation tablet txn)"
    using rom1 by (rule reads_only_txn_log_view)
  finally have l: "l = Inl NotFound" using assms(3) by (simp add: tablet_get_txn_log_view)
  obtain r3 m3 where g3: "tablet_get_metadata tablet new_version m2 = (r3, m3)"
    by (cases "tablet_get_metadata tablet new_version m2")
  have ro3: "reads_only m2 m3" using tablet_get_metadata_reads_only [of m2 tablet new_version] g3 by simp
  have "r3 = metadata_view m2 (TabletMetadataLocation tablet new_version)"
    using tablet_get_metadata_view [of tablet new_version m2] g3 by simp
  also have "\<dots> = metadata_view mgr (TabletMetadataLocation tablet new_version)"
    using rom2 by (rule reads_only_metadata_view)
  finally have "has_value r3" using assms(4) by (simp add: tablet_get_metadata_view)
  then have "apply_txn_logs tablet new_version (txn # post) md1 m1 = (Some (Inl OK), m3)"
    using g2 g3 l by (simp add: is_not_found_def)
  then have "apply_txn_logs tablet new_version (pre @ txn # post) (b\<lparr>version := new_version\<rparr>) m0
               = (Some (Inl OK), m3)"
    using a by (simp add: apply_txn_logs_append)
  then have "publish tablet base_version new_version (pre @ txn # post) mgr = (Some OK, m3)"
    using g0 by (simp add: publish_def)
  moreover have "reads_only mgr m3" using rom2 ro3 by (rule reads_only_trans)
  ultimately show ?thesis by blast
qed

lemma publish_first_base:
  assumes "publish tablet base_version new_version txns mgr = (Some OK, mgr1)"
  shows "(\<exists>b. metadata_view mgr1 (TabletMetadataLocation tablet base_version) = Inr b)
       \<or> metadata_view mgr1 (TabletMetadataLocation tablet base_version) = Inl NotFound"
proof -
  let ?Lb = "TabletMetadataLocation tablet base_version"
  obtain r m1 where g1: "tablet_get_metadata tablet base_version mgr = (r, m1)"
    by (cases "tablet_get_metadata tablet base_version mgr")
  have ro1: "reads_only mgr m1"
    using tablet_get_metadata_reads_only [of mgr tablet base_version] g1 by simp
  have rv: "r = metadata_view mgr ?Lb"
    using tablet_get_metadata_view [of tablet base_version mgr] g1 by simp
  show ?thesis
  proof (cases r)
    case (Inl st)
    obtain r2 m2 where g2: "tablet_get_metadata tablet new_version m1 = (r2, m2)"
      by (cases "tablet_get_metadata tablet new_version m1")
    have ro2: "reads_only m1 m2"
      using tablet_get_metadata_reads_only [of m1 tablet new_version] g2 by simp
    have "st \<noteq> OK" using Inl rv metadata_view_not_OK [of mgr ?Lb] by auto
    with assms g1 g2 Inl have nf: "st = NotFound" and m: "mgr1 = m2"
      by (auto simp: publish_def is_not_found_def split: if_splits)
    have "reads_only mgr m2" using ro1 ro2 by (rule reads_only_trans)
    then have "metadata_view mgr1 ?Lb = metadata_view mgr ?Lb"
      unfolding m by (rule reads_only_metadata_view)
    then show ?thesis using rv Inl nf by simp
  next
    case (Inr b)
    obtain flow m2 where a: "apply_txn_logs tablet new_version txns (b\<lparr>version := new_version\<rparr>) m1
                               = (flow, m2)"
      by (cases "apply_txn_logs tablet new_version txns (b\<lparr>version := new_version\<rparr>) m1")
    have ro2: "reads_only m1 m2"
      using apply_txn_logs_reads_only [of m1 tablet new_version txns "b\<lparr>version := new_version\<rparr>"] a
      by simp
    have rom2: "reads_only mgr m2" using ro1 ro2 by (rule reads_only_trans)
    have v2: "metadata_view m2 ?Lb = Inr b"
      using reads_only_metadata_view [OF rom2, of tablet base_version] rv Inr by simp
    show ?thesis
    proof (cases flow)
      case None
      then show ?thesis using assms g1 Inr a by (simp add: publish_def)
    next
      case (Some fl)
      show ?thesis
      proof (cases fl)
        case (Inl st)
        then have "mgr1 = m2" using assms g1 Inr a Some by (simp add: publish_def)
        then show ?thesis using v2 by simp
      next
        case md: (Inr metadata)
        obtain st m3 where p: "tablet_put_metadata metadata m2 = (st, m3)"
          by (cases "tablet_put_metadata metadata m2")
        from assms g1 Inr a Some md p
        have st: "st = OK" and m: "mgr1 = delete_txn_logs tablet txns m3"
          by (auto simp: publish_def ok_def split: if_splits)
        have pm: "put_tablet_metadata metadata m2 = (OK, m3)"
          using p st by (simp add: tablet_put_metadata_def)
        from put_tablet_metadata_view [of metadata m2 ?Lb b] pm v2
        have "metadata_view m3 ?Lb = Inr b \<or> metadata_view m3 ?Lb = Inr metadata" by simp
        then show ?thesis unfolding m by (auto simp: delete_txn_logs_metadata_view)
      qed
    qed
  qed
qed

text \<open>
  A repeated publish without transactions reads the base again, builds the same metadata
  and writes it once more over the object that already holds it.
\<close>

lemma publish_again_no_txns:
  assumes first: "publish tablet base_version new_version [] mgr = (Some OK, mgr1)"
    and base: "metadata_view mgr1 (TabletMetadataLocation tablet base_version) = Inr b1"
  shows "\<exists>mgr2. publish tablet base_version new_version [] mgr1 = (Some OK, mgr2)
           \<and> files (fs mgr2) = files (fs mgr1)
           \<and> (\<forall>key. metadata_view mgr2 (TabletMetadataLocation tablet key)
                     = metadata_view mgr1 (TabletMetadataLocation tablet key))"
proof -
  let ?Lb = "TabletMetadataLocation tablet base_version"
  obtain r m1 where g1: "tablet_get_metadata tablet base_version mgr = (r, m1)"
    by (cases "tablet_get_metadata tablet base_version mgr")
  have ro1: "reads_only mgr m1"
    using tablet_get_metadata_reads_only [of mgr tablet base_version] g1 by simp
  have rv: "r = metadata_view mgr ?Lb"
    using tablet_get_metadata_view [of tablet base_version mgr] g1 by simp
  have "\<exists>b. r = Inr b"
  proof (cases r)
    case (Inl st)
    obtain r2 m2 where g2: "tablet_get_metadata tablet new_version m1 = (r2, m2)"
      by (cases "tablet_get_metadata tablet new_version m1")
    have ro2: "reads_only m1 m2"
      using tablet_get_metadata_reads_only [of m1 tablet new_version] g2 by simp
    have "st \<noteq> OK" using Inl rv metadata_view_not_OK [of mgr ?Lb] by auto
    with first g1 g2 Inl have m: "mgr1 = m2"
      by (auto simp: publish_def is_not_found_def split: if_splits)
    have "reads_only mgr m2" using ro1 ro2 by (rule reads_only_trans)
    then have "metadata_view mgr1 ?Lb = metadata_view mgr ?Lb"
      unfolding m by (rule reads_only_metadata_view)
    then have "metadata_view mgr ?Lb = Inr b1" using base by simp
    moreover have "metadata_view mgr ?Lb = Inl st" using rv Inl by simp
    ultimately show ?thesis by simp
  next
    case (Inr b)
    then show ?thesis by blast
  qed
  then obtain b where r: "r = Inr b" by blast
  let ?md = "b\<lparr>version := new_version\<rparr>"
  let ?Lp = "TabletMetadataLocation (tablet_id ?md) (version ?md)"
  obtain st m3 where p: "tablet_put_metadata ?md m1 = (st, m3)"
    by (cases "tablet_put_metadata ?md m1")
  from first g1 r p have st: "st = OK" and m: "mgr1 = m3"
    by (auto simp: publish_def ok_def split: if_splits)
  have pm: "put_tablet_metadata ?md m1 = (OK, mgr1)"
    using p st m by (simp add: tablet_put_metadata_def)
  then have pok: "fst (put_tablet_metadata ?md m1) = OK" by simp
  have v1: "metadata_view m1 ?Lb = Inr b"
    using reads_only_metadata_view [OF ro1, of tablet base_version] rv r by simp
  from put_tablet_metadata_view [OF pok v1] pm base
  have b1: "b1 = b \<or> b1 = ?md" by auto
  then have b1v: "b1\<lparr>version := new_version\<rparr> = ?md" by auto
  from put_tablet_metadata_stored [OF pok] pm
  have stored: "files (fs mgr1) ?Lp = Some (MetadataFile ?md)"
    "?Lp \<notin> refused (metacache m1) \<longrightarrow> entries (metacache mgr1) ?Lp = Some (MetadataValue ?md)"
    "refused (metacache mgr1) = refused (metacache m1)"
    "open_fails (fs mgr1) = open_fails (fs m1)"
    "append_fails (fs mgr1) = append_fails (fs m1)"
    "close_fails (fs mgr1) = close_fails (fs m1)"
    by simp_all
  obtain m4 where g4: "tablet_get_metadata tablet base_version mgr1 = (Inr b1, m4)"
    using base tablet_get_metadata_view [of tablet base_version mgr1]
    by (cases "tablet_get_metadata tablet base_version mgr1") simp
  have ro4: "reads_only mgr1 m4"
    using tablet_get_metadata_reads_only [of mgr1 tablet base_version] g4 by simp
  have pok4: "fst (put_tablet_metadata ?md m4) = OK"
    using pok ro4 stored(4,5,6)
    by (simp add: put_tablet_metadata_status reads_only_def Let_def split: if_splits)
  have f4: "files (fs m4) ?Lp = Some (MetadataFile ?md)"
    using stored(1) ro4 by (simp add: reads_only_def)
  have e4: "?Lp \<notin> refused (metacache m4) \<longrightarrow> entries (metacache m4) ?Lp = Some (MetadataValue ?md)"
    using stored(2,3) ro4 by (simp add: reads_only_def)
  obtain m5 where p5: "put_tablet_metadata ?md m4 = (OK, m5)"
    using pok4 by (cases "put_tablet_metadata ?md m4") simp
  from put_tablet_metadata_again [OF pok4 f4 e4] p5
  have again: "files (fs m5) = files (fs m4)"
    "\<And>key. metadata_view m5 key = metadata_view m4 key"
    by simp_all
  have "publish tablet base_version new_version [] mgr1 = (Some OK, m5)"
    using g4 p5 b1v by (simp add: publish_def tablet_put_metadata_def ok_def)
  moreover have "files (fs m5) = files (fs mgr1)"
    using again(1) ro4 by (simp add: reads_only_def)
  moreover have "\<forall>key. metadata_view m5 (TabletMetadataLocation tablet key)
                     = metadata_view mgr1 (TabletMetadataLocation tablet key)"
    using again(2) reads_only_metadata_view [OF ro4] by simp
  ultimately show ?thesis by blast
qed

lemma txn_log_view_not_OK: "txn_log_view mgr key \<noteq> Inl OK"
  by (simp add: txn_log_view_def split: option.splits FileContent.splits)

text \<open>
  The loop of \<^verbatim>\<open>publish\<close> reads the manager through the two views only: on two
  managers that show the same metadata and the same logs of the tablet it takes the same
  course.
\<close>

lemma apply_txn_logs_cong:
  assumes "\<forall>v. metadata_view mgr' (TabletMetadataLocation tablet v)
              = metadata_view mgr (TabletMetadataLocation tablet v)"
    and "\<forall>txn. txn_log_view mgr' (TxnLogLocation tablet txn)
              = txn_log_view mgr (TxnLogLocation tablet txn)"
  shows "fst (apply_txn_logs tablet new_version txns md mgr')
       = fst (apply_txn_logs tablet new_version txns md mgr)"
  using assms
proof (induction txns arbitrary: md mgr mgr')
  case Nil
  show ?case by simp
next
  case (Cons txnid txns)
  obtain r m1 where g: "tablet_get_txn_log tablet txnid mgr = (r, m1)"
    by (cases "tablet_get_txn_log tablet txnid mgr")
  obtain r' m1' where g': "tablet_get_txn_log tablet txnid mgr' = (r', m1')"
    by (cases "tablet_get_txn_log tablet txnid mgr'")
  have ro: "reads_only mgr m1"
    using tablet_get_txn_log_reads_only [of mgr tablet txnid] g by simp
  have ro': "reads_only mgr' m1'"
    using tablet_get_txn_log_reads_only [of mgr' tablet txnid] g' by simp
  have rr: "r' = r"
    using tablet_get_txn_log_view [of tablet txnid mgr] tablet_get_txn_log_view [of tablet txnid mgr']
      g g' Cons.prems(2) by simp
  have mv: "\<forall>v. metadata_view m1' (TabletMetadataLocation tablet v)
              = metadata_view m1 (TabletMetadataLocation tablet v)"
    using reads_only_metadata_view [OF ro] reads_only_metadata_view [OF ro'] Cons.prems(1) by simp
  have lv: "\<forall>txn. txn_log_view m1' (TxnLogLocation tablet txn)
              = txn_log_view m1 (TxnLogLocation tablet txn)"
    using reads_only_txn_log_view [OF ro] reads_only_txn_log_view [OF ro'] Cons.prems(2) by simp
  show ?case
  proof (cases r)
    case (Inl st)
    have "fst (tablet_get_metadata tablet new_version m1')
        = fst (tablet_get_metadata tablet new_version m1)"
      using mv by (simp add: tablet_get_metadata_view)
    then show ?thesis
      using g g' rr Inl by (auto simp: Let_def split: prod.splits)
  next
    case (Inr l)
    show ?thesis
    proof (cases "apply_txn_log l md")
      case None
      then show ?thesis using g g' rr Inr by simp
    next
      case (Some p)
      obtain st md1 where p: "p = (st, md1)" by (cases p)
      have "fst (apply_txn_logs tablet new_version txns md1 m1')
          = fst (apply_txn_logs tablet new_version txns md1 m1)"
        using mv lv by (rule Cons.IH)
      then show ?thesis using g g' rr Inr Some p by simp
    qed
  qed
qed

lemma apply_txn_logs_OK_new_version:
  "fst (apply_txn_logs tablet new_version txns md mgr) = Some (Inl OK) \<Longrightarrow>
   has_value (metadata_view mgr (TabletMetadataLocation tablet new_version))"
proof (induction txns arbitrary: md mgr)
  case Nil
  then show ?case by simp
next
  case (Cons txnid txns)
  obtain r m1 where g: "tablet_get_txn_log tablet txnid mgr = (r, m1)"
    by (cases "tablet_get_txn_log tablet txnid mgr")
  have ro: "reads_only mgr m1"
    using tablet_get_txn_log_reads_only [of mgr tablet txnid] g by simp
  have rv: "r = txn_log_view mgr (TxnLogLocation tablet txnid)"
    using tablet_get_txn_log_view [of tablet txnid mgr] g by simp
  show ?case
  proof (cases r)
    case (Inl st)
    obtain r2 m2 where g2: "tablet_get_metadata tablet new_version m1 = (r2, m2)"
      by (cases "tablet_get_metadata tablet new_version m1")
    have "st \<noteq> OK" using Inl rv txn_log_view_not_OK [of mgr "TxnLogLocation tablet txnid"] by auto
    then have "has_value r2"
      using Cons.prems g g2 Inl by (auto simp: Let_def split: if_splits)
    moreover have "r2 = metadata_view m1 (TabletMetadataLocation tablet new_version)"
      using tablet_get_metadata_view [of tablet new_version m1] g2 by simp
    ultimately show ?thesis using reads_only_metadata_view [OF ro, of tablet new_version] by simp
  next
    case (Inr l)
    show ?thesis
    proof (cases "apply_txn_log l md")
      case None
      then show ?thesis using Cons.prems g Inr by simp
    next
      case (Some p)
      obtain st md1 where p: "p = (st, md1)" by (cases p)
      have "fst (apply_txn_logs tablet new_version txns md1 m1) = Some (Inl OK)"
        using Cons.prems g Inr Some p by (auto simp: ok_def split: if_splits)
      from Cons.IH [OF this] show ?thesis
        using reads_only_metadata_view [OF ro, of tablet new_version] by simp
    qed
  qed
qed

text \<open>Applying logs changes neither the tablet id nor the version of the metadata.\<close>

lemma apply_compaction_log_ids:
  assumes "apply_compaction_log opc md = Some (st, md1)"
  shows "tablet_id md1 = tablet_id md \<and> version md1 = version md"
proof (cases "input_rowsets opc = []")
  case True
  then show ?thesis using assms by (simp add: apply_compaction_log_def)
next
  case False
  let ?f = "find_if 0 (Finder (input_rowsets opc ! 0)) (rowsets md)"
  show ?thesis
  proof (cases "?f = length (rowsets md)")
    case True
    then show ?thesis using assms False by (simp add: apply_compaction_log_def Let_def)
  next
    case nf: False
    show ?thesis
    proof (cases "adjacency_loop (input_rowsets opc) (rowsets md) 1 ?f")
      case None
      then show ?thesis
        using assms False nf
        by (simp add: apply_compaction_log_def Let_def del: adjacency_loop.simps)
    next
      case (Some r)
      show ?thesis
      proof (cases r)
        case (Inl e)
        then show ?thesis
          using assms False nf Some
          by (simp add: apply_compaction_log_def Let_def del: adjacency_loop.simps)
      next
        case (Inr p)
        then show ?thesis
          using assms False nf Some
          by (auto simp add: apply_compaction_log_def Let_def simp del: adjacency_loop.simps
              split: option.splits if_splits prod.splits)
      qed
    qed
  qed
qed

lemma apply_txn_log_ids:
  "apply_txn_log l md = Some (st, md1) \<Longrightarrow>
   tablet_id md1 = tablet_id md \<and> version md1 = version md"
proof -
  assume a: "apply_txn_log l md = Some (st, md1)"
  let ?md0 = "case op_write l of None \<Rightarrow> md | Some w \<Rightarrow> snd (apply_write_log w md)"
  have w: "tablet_id ?md0 = tablet_id md \<and> version ?md0 = version md"
    by (simp add: apply_write_log_def Let_def split: option.splits)
  show ?thesis
  proof (cases "op_compaction l")
    case None
    then have "md1 = ?md0" using a by (auto simp: apply_txn_log_unfold split: if_splits)
    then show ?thesis using w by simp
  next
    case (Some c)
    then obtain st2 where "apply_compaction_log c ?md0 = Some (st2, md1)"
      using a by (auto simp: apply_txn_log_unfold split: if_splits option.splits)
    from apply_compaction_log_ids [OF this] w show ?thesis by simp
  qed
qed

lemma apply_txn_logs_ids:
  "apply_txn_logs tablet new_version txns md mgr = (Some (Inr md1), mgr1) \<Longrightarrow>
   tablet_id md1 = tablet_id md \<and> version md1 = version md"
proof (induction txns arbitrary: md mgr)
  case Nil
  then show ?case by simp
next
  case (Cons txnid txns)
  obtain r m1 where g: "tablet_get_txn_log tablet txnid mgr = (r, m1)"
    by (cases "tablet_get_txn_log tablet txnid mgr")
  show ?case
  proof (cases r)
    case (Inl st)
    then show ?thesis
      using Cons.prems g by (auto simp: Let_def split: if_splits prod.splits)
  next
    case (Inr l)
    show ?thesis
    proof (cases "apply_txn_log l md")
      case None
      then show ?thesis using Cons.prems g Inr by simp
    next
      case (Some p)
      obtain st md2 where p: "p = (st, md2)" by (cases p)
      have "apply_txn_logs tablet new_version txns md2 m1 = (Some (Inr md1), mgr1)"
        using Cons.prems g Inr Some p by (auto split: if_splits)
      from Cons.IH [OF this] apply_txn_log_ids [of l md st md2] Some p
      show ?thesis by simp
    qed
  qed
qed

text \<open>What a successful \<^verbatim>\<open>put_tablet_metadata\<close> and the deletion of the logs leave.\<close>

lemma put_tablet_metadata_faults:
  "unreadable (fs (snd (put_tablet_metadata md mgr))) = unreadable (fs mgr)
   \<and> delete_fails (fs (snd (put_tablet_metadata md mgr))) = delete_fails (fs mgr)"
  by (auto simp: put_tablet_metadata_def new_writable_file_def wf_append_def wf_close_def
      fill_metacache_def Let_def split: option.splits prod.splits if_splits sum.splits)

lemma put_tablet_metadata_readable:
  assumes "fst (put_tablet_metadata md mgr) = OK"
    and "TabletMetadataLocation (tablet_id md) (version md) \<notin> unreadable (fs mgr)"
  shows "has_value (metadata_view (snd (put_tablet_metadata md mgr))
           (TabletMetadataLocation (tablet_id md) (version md)))"
  using assms
  by (auto simp: put_tablet_metadata_def new_writable_file_def wf_append_def wf_close_def
      fill_metacache_def metadata_view_def lookup_tablet_metadata_def ok_def Let_def
      tablet_metadata_location_def has_value_def
      split: option.splits prod.splits if_splits CacheValue.splits FileContent.splits)

lemma delete_txn_log_faults:
  "unreadable (fs (snd (tablet_delete_txn_log tablet txn mgr))) = unreadable (fs mgr)
   \<and> delete_fails (fs (snd (tablet_delete_txn_log tablet txn mgr))) = delete_fails (fs mgr)"
  by (simp add: tablet_delete_txn_log_def delete_txn_log_def delete_file_def erase_metacache_def
      Let_def split: option.splits prod.splits)

lemma delete_txn_log_not_found:
  assumes "TxnLogLocation tablet txn \<notin> unreadable (fs mgr)"
    and "TxnLogLocation tablet txn \<notin> delete_fails (fs mgr)"
  shows "txn_log_view (snd (tablet_delete_txn_log tablet txn mgr)) (TxnLogLocation tablet txn)
       = Inl NotFound"
  using assms
  by (simp add: tablet_delete_txn_log_def delete_txn_log_def delete_file_def erase_metacache_def
      txn_log_view_def lookup_txn_log_def txn_log_location_def Let_def
      split: option.splits prod.splits)

lemma delete_txn_log_keeps_not_found:
  "txn_log_view mgr key = Inl NotFound \<Longrightarrow>
   txn_log_view (snd (tablet_delete_txn_log tablet txn mgr)) key = Inl NotFound"
  by (auto simp: tablet_delete_txn_log_def delete_txn_log_def delete_file_def erase_metacache_def
      txn_log_view_def lookup_txn_log_def txn_log_location_def Let_def
      split: option.splits prod.splits if_splits CacheValue.splits FileContent.splits)

lemma delete_txn_logs_keeps_not_found:
  "txn_log_view mgr key = Inl NotFound \<Longrightarrow>
   txn_log_view (delete_txn_logs tablet txns mgr) key = Inl NotFound"
  by (induction txns arbitrary: mgr) (simp_all add: delete_txn_log_keeps_not_found)

lemma delete_txn_logs_not_found:
  assumes "\<forall>txn \<in> set txns. TxnLogLocation tablet txn \<notin> unreadable (fs mgr)
                             \<and> TxnLogLocation tablet txn \<notin> delete_fails (fs mgr)"
    and "txn \<in> set txns"
  shows "txn_log_view (delete_txn_logs tablet txns mgr) (TxnLogLocation tablet txn) = Inl NotFound"
  using assms
proof (induction txns arbitrary: mgr)
  case Nil
  then show ?case by simp
next
  case (Cons x xs)
  let ?m = "snd (tablet_delete_txn_log tablet x mgr)"
  note fl = delete_txn_log_faults [of tablet x mgr]
  show ?case
  proof (cases "txn \<in> set xs")
    case True
    have "\<forall>txn \<in> set xs. TxnLogLocation tablet txn \<notin> unreadable (fs ?m)
                             \<and> TxnLogLocation tablet txn \<notin> delete_fails (fs ?m)"
      using Cons.prems(1) fl by simp
    from Cons.IH [OF this True] show ?thesis by simp
  next
    case False
    then have "txn = x" using Cons.prems(2) by simp
    then have "txn_log_view ?m (TxnLogLocation tablet txn) = Inl NotFound"
      using Cons.prems(1) delete_txn_log_not_found [of tablet x mgr] by simp
    then show ?thesis by (simp add: delete_txn_logs_keeps_not_found)
  qed
qed

text \<open>
  How a publish that returns \<open>OK\<close> has run: it has only read, having found the metadata
  of the new version readable after the base or a log was not found; or it has applied
  every log, written the new metadata and deleted the logs.
\<close>

lemma publish_OK_cases:
  assumes "publish tablet base_version new_version txns mgr = (Some OK, mgr1)"
  shows "(reads_only mgr mgr1
          \<and> has_value (metadata_view mgr (TabletMetadataLocation tablet new_version))
          \<and> (metadata_view mgr (TabletMetadataLocation tablet base_version) = Inl NotFound
             \<or> (\<exists>b. metadata_view mgr (TabletMetadataLocation tablet base_version) = Inr b
                  \<and> fst (apply_txn_logs tablet new_version txns (b\<lparr>version := new_version\<rparr>)
                          (snd (tablet_get_metadata tablet base_version mgr))) = Some (Inl OK))))
       \<or> (\<exists>b mdf m2 m3.
             metadata_view mgr (TabletMetadataLocation tablet base_version) = Inr b
             \<and> apply_txn_logs tablet new_version txns (b\<lparr>version := new_version\<rparr>)
                 (snd (tablet_get_metadata tablet base_version mgr)) = (Some (Inr mdf), m2)
             \<and> put_tablet_metadata mdf m2 = (OK, m3)
             \<and> mgr1 = delete_txn_logs tablet txns m3)"
proof -
  let ?Lb = "TabletMetadataLocation tablet base_version"
  let ?Ln = "TabletMetadataLocation tablet new_version"
  obtain r m1 where g1: "tablet_get_metadata tablet base_version mgr = (r, m1)"
    by (cases "tablet_get_metadata tablet base_version mgr")
  have ro1: "reads_only mgr m1"
    using tablet_get_metadata_reads_only [of mgr tablet base_version] g1 by simp
  have rv: "r = metadata_view mgr ?Lb"
    using tablet_get_metadata_view [of tablet base_version mgr] g1 by simp
  show ?thesis
  proof (cases r)
    case (Inl st)
    obtain r2 m2 where g2: "tablet_get_metadata tablet new_version m1 = (r2, m2)"
      by (cases "tablet_get_metadata tablet new_version m1")
    have ro2: "reads_only m1 m2"
      using tablet_get_metadata_reads_only [of m1 tablet new_version] g2 by simp
    have "st \<noteq> OK" using Inl rv metadata_view_not_OK [of mgr ?Lb] by auto
    with assms g1 g2 Inl have nf: "st = NotFound" and m: "mgr1 = m2" and hv: "has_value r2"
      by (auto simp: publish_def is_not_found_def split: if_splits)
    have "r2 = metadata_view m1 ?Ln"
      using tablet_get_metadata_view [of tablet new_version m1] g2 by simp
    then have "has_value (metadata_view mgr ?Ln)"
      using hv reads_only_metadata_view [OF ro1, of tablet new_version] by simp
    moreover have "reads_only mgr mgr1" unfolding m using ro1 ro2 by (rule reads_only_trans)
    moreover have "metadata_view mgr ?Lb = Inl NotFound" using rv Inl nf by simp
    ultimately show ?thesis by blast
  next
    case (Inr b)
    have bv: "metadata_view mgr ?Lb = Inr b" using rv Inr by simp
    have m1: "m1 = snd (tablet_get_metadata tablet base_version mgr)" using g1 by simp
    obtain flow m2 where a: "apply_txn_logs tablet new_version txns (b\<lparr>version := new_version\<rparr>) m1
                               = (flow, m2)"
      by (cases "apply_txn_logs tablet new_version txns (b\<lparr>version := new_version\<rparr>) m1")
    have ro2: "reads_only m1 m2"
      using apply_txn_logs_reads_only [of m1 tablet new_version txns "b\<lparr>version := new_version\<rparr>"] a
      by simp
    have rom2: "reads_only mgr m2" using ro1 ro2 by (rule reads_only_trans)
    show ?thesis
    proof (cases flow)
      case None
      then show ?thesis using assms g1 Inr a by (simp add: publish_def)
    next
      case (Some fl)
      show ?thesis
      proof (cases fl)
        case (Inl st)
        then have m: "mgr1 = m2" and st: "st = OK"
          using assms g1 Inr a Some by (simp_all add: publish_def)
        have f: "fst (apply_txn_logs tablet new_version txns (b\<lparr>version := new_version\<rparr>) m1)
                   = Some (Inl OK)"
          using a Some Inl st by simp
        from apply_txn_logs_OK_new_version [OF this]
        have "has_value (metadata_view mgr ?Ln)"
          using reads_only_metadata_view [OF ro1, of tablet new_version] by simp
        then show ?thesis using rom2 m bv f m1 by blast
      next
        case md: (Inr metadata)
        obtain st m3 where p: "tablet_put_metadata metadata m2 = (st, m3)"
          by (cases "tablet_put_metadata metadata m2")
        from assms g1 Inr a Some md p
        have st: "st = OK" and m: "mgr1 = delete_txn_logs tablet txns m3"
          by (auto simp: publish_def ok_def split: if_splits)
        have pm: "put_tablet_metadata metadata m2 = (OK, m3)"
          using p st by (simp add: tablet_put_metadata_def)
        have "apply_txn_logs tablet new_version txns (b\<lparr>version := new_version\<rparr>)
                 (snd (tablet_get_metadata tablet base_version mgr)) = (Some (Inr metadata), m2)"
          using a Some md m1 by simp
        then show ?thesis using bv pm m by blast
      qed
    qed
  qed
qed

text \<open>After a publish that has only read, the same publish only reads again.\<close>

lemma publish_again_after_reads:
  assumes ro: "reads_only mgr mgr1"
    and hv: "has_value (metadata_view mgr (TabletMetadataLocation tablet new_version))"
    and how: "metadata_view mgr (TabletMetadataLocation tablet base_version) = Inl NotFound
             \<or> (\<exists>b. metadata_view mgr (TabletMetadataLocation tablet base_version) = Inr b
                  \<and> fst (apply_txn_logs tablet new_version txns (b\<lparr>version := new_version\<rparr>)
                          (snd (tablet_get_metadata tablet base_version mgr))) = Some (Inl OK))"
  shows "\<exists>mgr2. publish tablet base_version new_version txns mgr1 = (Some OK, mgr2)
           \<and> reads_only mgr1 mgr2"
proof -
  let ?Lb = "TabletMetadataLocation tablet base_version"
  let ?Ln = "TabletMetadataLocation tablet new_version"
  have hv1: "has_value (fst (tablet_get_metadata tablet new_version mgr1))"
    using hv reads_only_metadata_view [OF ro, of tablet new_version]
    by (simp add: tablet_get_metadata_view)
  from how show ?thesis
  proof
    assume "metadata_view mgr ?Lb = Inl NotFound"
    then have "fst (tablet_get_metadata tablet base_version mgr1) = Inl NotFound"
      using reads_only_metadata_view [OF ro, of tablet base_version]
      by (simp add: tablet_get_metadata_view)
    from publish_base_not_found [OF this hv1] show ?thesis .
  next
    assume "\<exists>b. metadata_view mgr ?Lb = Inr b
                  \<and> fst (apply_txn_logs tablet new_version txns (b\<lparr>version := new_version\<rparr>)
                          (snd (tablet_get_metadata tablet base_version mgr))) = Some (Inl OK)"
    then obtain b where bv: "metadata_view mgr ?Lb = Inr b"
      and f: "fst (apply_txn_logs tablet new_version txns (b\<lparr>version := new_version\<rparr>)
                (snd (tablet_get_metadata tablet base_version mgr))) = Some (Inl OK)"
      by blast
    let ?m0 = "snd (tablet_get_metadata tablet base_version mgr)"
    have ro0: "reads_only mgr ?m0" by (rule tablet_get_metadata_reads_only)
    obtain m0' where g: "tablet_get_metadata tablet base_version mgr1 = (Inr b, m0')"
      using bv reads_only_metadata_view [OF ro, of tablet base_version]
        tablet_get_metadata_view [of tablet base_version mgr1]
      by (cases "tablet_get_metadata tablet base_version mgr1") simp
    have ro0': "reads_only mgr1 m0'"
      using tablet_get_metadata_reads_only [of mgr1 tablet base_version] g by simp
    have mv: "\<forall>v. metadata_view m0' (TabletMetadataLocation tablet v)
                = metadata_view ?m0 (TabletMetadataLocation tablet v)"
      using reads_only_metadata_view [OF ro] reads_only_metadata_view [OF ro0]
        reads_only_metadata_view [OF ro0'] by simp
    have lv: "\<forall>txn. txn_log_view m0' (TxnLogLocation tablet txn)
                = txn_log_view ?m0 (TxnLogLocation tablet txn)"
      using reads_only_txn_log_view [OF ro] reads_only_txn_log_view [OF ro0]
        reads_only_txn_log_view [OF ro0'] by simp
    obtain flow m2 where a: "apply_txn_logs tablet new_version txns (b\<lparr>version := new_version\<rparr>) m0'
                               = (flow, m2)"
      by (cases "apply_txn_logs tablet new_version txns (b\<lparr>version := new_version\<rparr>) m0'")
    have "flow = Some (Inl OK)"
      using apply_txn_logs_cong [OF mv lv, of new_version txns "b\<lparr>version := new_version\<rparr>"] f a
      by simp
    then have "publish tablet base_version new_version txns mgr1 = (Some OK, m2)"
      using g a by (simp add: publish_def)
    moreover have "reads_only m0' m2"
      using apply_txn_logs_reads_only [of m0' tablet new_version txns "b\<lparr>version := new_version\<rparr>"] a
      by simp
    then have "reads_only mgr1 m2" using ro0' by (rule reads_only_trans [rotated])
    ultimately show ?thesis by blast
  qed
qed

text \<open>
  After a publish that has written: the metadata of the new version can be read and the
  logs are not found, when the base metadata carries the id of the tablet and no read of
  the new metadata and no read or delete of a log fails.
\<close>

lemma publish_written:
  assumes base: "metadata_view mgr (TabletMetadataLocation tablet base_version) = Inr b"
    and loop: "apply_txn_logs tablet new_version txns (b\<lparr>version := new_version\<rparr>)
                 (snd (tablet_get_metadata tablet base_version mgr)) = (Some (Inr mdf), m2)"
    and put: "put_tablet_metadata mdf m2 = (OK, m3)"
    and wf_id: "tablet_id b = tablet"
    and readable: "TabletMetadataLocation tablet new_version \<notin> unreadable (fs mgr)"
    and logs: "\<forall>txn \<in> set txns. TxnLogLocation tablet txn \<notin> unreadable (fs mgr)
                               \<and> TxnLogLocation tablet txn \<notin> delete_fails (fs mgr)"
  shows "has_value (metadata_view (delete_txn_logs tablet txns m3)
           (TabletMetadataLocation tablet new_version))"
    and "\<forall>txn \<in> set txns.
           txn_log_view (delete_txn_logs tablet txns m3) (TxnLogLocation tablet txn) = Inl NotFound"
proof -
  let ?m0 = "snd (tablet_get_metadata tablet base_version mgr)"
  have ids: "tablet_id mdf = tablet" "version mdf = new_version"
    using apply_txn_logs_ids [OF loop] wf_id by simp_all
  have "reads_only mgr ?m0" by (rule tablet_get_metadata_reads_only)
  moreover have "reads_only ?m0 m2"
    using apply_txn_logs_reads_only [of ?m0 tablet new_version txns "b\<lparr>version := new_version\<rparr>"]
      loop by simp
  ultimately have ro: "reads_only mgr m2" by (rule reads_only_trans)
  then have f2: "unreadable (fs m2) = unreadable (fs mgr)" "delete_fails (fs m2) = delete_fails (fs mgr)"
    by (simp_all add: reads_only_def)
  have pok: "fst (put_tablet_metadata mdf m2) = OK" using put by simp
  have f3: "unreadable (fs m3) = unreadable (fs mgr)" "delete_fails (fs m3) = delete_fails (fs mgr)"
    using put_tablet_metadata_faults [of mdf m2] put f2 by simp_all
  have "has_value (metadata_view m3 (TabletMetadataLocation tablet new_version))"
    using put_tablet_metadata_readable [OF pok] put ids readable f2 by simp
  then show "has_value (metadata_view (delete_txn_logs tablet txns m3)
           (TabletMetadataLocation tablet new_version))"
    by (simp add: delete_txn_logs_metadata_view)
  have "\<forall>txn \<in> set txns. TxnLogLocation tablet txn \<notin> unreadable (fs m3)
                             \<and> TxnLogLocation tablet txn \<notin> delete_fails (fs m3)"
    using logs f3 by simp
  then show "\<forall>txn \<in> set txns.
           txn_log_view (delete_txn_logs tablet txns m3) (TxnLogLocation tablet txn) = Inl NotFound"
    using delete_txn_logs_not_found [of txns tablet m3] by blast
qed

text \<open>
  A repeated publish in a state in which the metadata of the new version can be read and
  the logs of the transactions are not found.
\<close>

lemma publish_again_after_deletion:
  assumes first: "publish tablet base_version new_version txns mgr = (Some OK, mgr1)"
    and newv0: "fst (tablet_get_metadata tablet new_version mgr1) = Inr new_md"
    and deleted: "\<forall>txn \<in> set txns. fst (tablet_get_txn_log tablet txn mgr1) = Inl NotFound"
  shows "\<exists>mgr2. publish tablet base_version new_version txns mgr1 = (Some OK, mgr2)
           \<and> files (fs mgr2) = files (fs mgr1)
           \<and> fst (tablet_get_metadata tablet new_version mgr2) = Inr new_md
           \<and> (txns \<noteq> [] \<longrightarrow> writes (fs_log (fs mgr2)) = writes (fs_log (fs mgr1)))"
proof -
  have newv: "metadata_view mgr1 (TabletMetadataLocation tablet new_version) = Inr new_md"
    using newv0 by (simp add: tablet_get_metadata_view)
  have hv: "has_value (fst (tablet_get_metadata tablet new_version mgr1))"
    using newv by (simp add: tablet_get_metadata_view has_value_def)
  let ?goal = "\<exists>mgr2. publish tablet base_version new_version txns mgr1 = (Some OK, mgr2)
           \<and> files (fs mgr2) = files (fs mgr1)
           \<and> fst (tablet_get_metadata tablet new_version mgr2) = Inr new_md
           \<and> (txns \<noteq> [] \<longrightarrow> writes (fs_log (fs mgr2)) = writes (fs_log (fs mgr1)))"
  have from_reads: "?goal"
    if "publish tablet base_version new_version txns mgr1 = (Some OK, mgr2)"
      and "reads_only mgr1 mgr2" for mgr2
  proof -
    have "metadata_view mgr2 (TabletMetadataLocation tablet new_version) = Inr new_md"
      using reads_only_metadata_view [OF that(2), of tablet new_version] newv by simp
    then show ?thesis using that by (auto simp: reads_only_def tablet_get_metadata_view)
  qed
  from publish_first_base [OF first]
  consider (nf) "metadata_view mgr1 (TabletMetadataLocation tablet base_version) = Inl NotFound"
    | (found) b1 where "metadata_view mgr1 (TabletMetadataLocation tablet base_version) = Inr b1"
    by blast
  then show ?thesis
  proof cases
    case nf
    then have "fst (tablet_get_metadata tablet base_version mgr1) = Inl NotFound"
      by (simp add: tablet_get_metadata_view)
    from publish_base_not_found [OF this hv, of txns] show ?thesis using from_reads by blast
  next
    case found
    show ?thesis
    proof (cases txns)
      case Nil
      from publish_again_no_txns [OF first [unfolded Nil] found]
      obtain mgr2 where "publish tablet base_version new_version [] mgr1 = (Some OK, mgr2)"
        "files (fs mgr2) = files (fs mgr1)"
        "metadata_view mgr2 (TabletMetadataLocation tablet new_version)
           = metadata_view mgr1 (TabletMetadataLocation tablet new_version)"
        by blast
      then show ?thesis using Nil newv by (auto simp: tablet_get_metadata_view)
    next
      case (Cons t0 ts)
      have b: "fst (tablet_get_metadata tablet base_version mgr1) = Inr b1"
        using found by (simp add: tablet_get_metadata_view)
      have a: "apply_txn_logs tablet new_version [] (b1\<lparr>version := new_version\<rparr>)
                 (snd (tablet_get_metadata tablet base_version mgr1))
               = (Some (Inr (b1\<lparr>version := new_version\<rparr>)),
                  snd (tablet_get_metadata tablet base_version mgr1))"
        by simp
      have d: "fst (tablet_get_txn_log tablet t0 mgr1) = Inl NotFound"
        using deleted Cons by simp
      from publish_log_not_found [OF b a d hv, of ts] show ?thesis
        using from_reads Cons by auto
    qed
  qed
qed

text \<open>
  Failed deletes. \<^verbatim>\<open>publish\<close> only logs the status of \<^verbatim>\<open>delete_txn_log\<close>, so it
  returns \<open>OK\<close> also when a log could not be deleted. The log has left the cache by
  then, and the next publish reads it from its object.
\<close>

lemma put_tablet_metadata_other:
  "txn_log_view (snd (put_tablet_metadata md mgr)) (TxnLogLocation a txn)
     = txn_log_view mgr (TxnLogLocation a txn)"
  "lookup_txn_log (TxnLogLocation a txn) (snd (put_tablet_metadata md mgr))
     = lookup_txn_log (TxnLogLocation a txn) mgr"
  "files (fs (snd (put_tablet_metadata md mgr))) (TxnLogLocation a txn)
     = files (fs mgr) (TxnLogLocation a txn)"
  "key \<noteq> TabletMetadataLocation (tablet_id md) (version md) \<Longrightarrow>
   metadata_view (snd (put_tablet_metadata md mgr)) key = metadata_view mgr key"
  by (auto simp: put_tablet_metadata_def new_writable_file_def wf_append_def wf_close_def
      fill_metacache_def txn_log_view_def metadata_view_def lookup_txn_log_def
      lookup_tablet_metadata_def tablet_metadata_location_def Let_def
      split: option.splits prod.splits if_splits sum.splits)

lemma reads_only_log_coherent:
  assumes ro: "reads_only mgr mgr1"
    and coh: "\<forall>l. lookup_txn_log (TxnLogLocation a txn) mgr = Some l \<longrightarrow>
                  files (fs mgr) (TxnLogLocation a txn) = Some (TxnLogFile l)"
    and rd: "TxnLogLocation a txn \<notin> unreadable (fs mgr)"
    and c1: "lookup_txn_log (TxnLogLocation a txn) mgr1 = Some l1"
  shows "files (fs mgr1) (TxnLogLocation a txn) = Some (TxnLogFile l1)"
proof -
  have v1: "txn_log_view mgr1 (TxnLogLocation a txn) = Inr l1"
    using c1 by (simp add: txn_log_view_def)
  then have v: "txn_log_view mgr (TxnLogLocation a txn) = Inr l1"
    using reads_only_txn_log_view [OF ro, of a txn] by simp
  have "files (fs mgr) (TxnLogLocation a txn) = Some (TxnLogFile l1)"
    using v coh rd
    by (auto simp: txn_log_view_def split: option.splits FileContent.splits if_splits)
  then show ?thesis using ro by (simp add: reads_only_def)
qed

text \<open>
  What deleting the logs changes: nothing of the metadata, none of the failing paths; a
  log reads as not found or, when the cache agreed with its object, as before; and the
  object of a listed log is gone unless deleting it fails.
\<close>

lemma delete_txn_log_frame:
  "files (fs (snd (tablet_delete_txn_log tablet txn mgr))) (TabletMetadataLocation a v)
     = files (fs mgr) (TabletMetadataLocation a v)"
  "entries (metacache (snd (tablet_delete_txn_log tablet txn mgr))) (TabletMetadataLocation a v)
     = entries (metacache mgr) (TabletMetadataLocation a v)"
  "open_fails (fs (snd (tablet_delete_txn_log tablet txn mgr))) = open_fails (fs mgr)"
  "append_fails (fs (snd (tablet_delete_txn_log tablet txn mgr))) = append_fails (fs mgr)"
  "close_fails (fs (snd (tablet_delete_txn_log tablet txn mgr))) = close_fails (fs mgr)"
  "refused (metacache (snd (tablet_delete_txn_log tablet txn mgr))) = refused (metacache mgr)"
  "fill_cache_default (snd (tablet_delete_txn_log tablet txn mgr)) = fill_cache_default mgr"
  by (simp_all add: tablet_delete_txn_log_def delete_txn_log_def delete_file_def erase_metacache_def
      txn_log_location_def Let_def split: option.splits prod.splits)

lemma delete_txn_logs_frame:
  "files (fs (delete_txn_logs tablet txns mgr)) (TabletMetadataLocation a v)
     = files (fs mgr) (TabletMetadataLocation a v)"
  "entries (metacache (delete_txn_logs tablet txns mgr)) (TabletMetadataLocation a v)
     = entries (metacache mgr) (TabletMetadataLocation a v)"
  "open_fails (fs (delete_txn_logs tablet txns mgr)) = open_fails (fs mgr)"
  "append_fails (fs (delete_txn_logs tablet txns mgr)) = append_fails (fs mgr)"
  "close_fails (fs (delete_txn_logs tablet txns mgr)) = close_fails (fs mgr)"
  "refused (metacache (delete_txn_logs tablet txns mgr)) = refused (metacache mgr)"
  "fill_cache_default (delete_txn_logs tablet txns mgr) = fill_cache_default mgr"
  "unreadable (fs (delete_txn_logs tablet txns mgr)) = unreadable (fs mgr)"
  "delete_fails (fs (delete_txn_logs tablet txns mgr)) = delete_fails (fs mgr)"
  by (induction txns arbitrary: mgr) (simp_all add: delete_txn_log_frame delete_txn_log_faults)

lemma delete_txn_log_view:
  assumes "\<forall>l. lookup_txn_log key mgr = Some l \<longrightarrow> files (fs mgr) key = Some (TxnLogFile l)"
    and "key \<notin> unreadable (fs mgr)"
  shows "txn_log_view (snd (tablet_delete_txn_log tablet txn mgr)) key = Inl NotFound
       \<or> txn_log_view (snd (tablet_delete_txn_log tablet txn mgr)) key = txn_log_view mgr key"
  using assms
  by (auto simp: tablet_delete_txn_log_def delete_txn_log_def delete_file_def erase_metacache_def
      txn_log_view_def lookup_txn_log_def txn_log_location_def Let_def
      split: option.splits prod.splits if_splits CacheValue.splits FileContent.splits)

lemma delete_txn_log_coherent:
  assumes "\<forall>l. lookup_txn_log key mgr = Some l \<longrightarrow> files (fs mgr) key = Some (TxnLogFile l)"
    and "lookup_txn_log key (snd (tablet_delete_txn_log tablet txn mgr)) = Some l"
  shows "files (fs (snd (tablet_delete_txn_log tablet txn mgr))) key = Some (TxnLogFile l)"
  using assms
  by (auto simp: tablet_delete_txn_log_def delete_txn_log_def delete_file_def erase_metacache_def
      lookup_txn_log_def txn_log_location_def Let_def
      split: option.splits prod.splits if_splits CacheValue.splits)

lemma delete_txn_logs_view:
  assumes "\<forall>l. lookup_txn_log key mgr = Some l \<longrightarrow> files (fs mgr) key = Some (TxnLogFile l)"
    and "key \<notin> unreadable (fs mgr)"
  shows "txn_log_view (delete_txn_logs tablet txns mgr) key = Inl NotFound
       \<or> txn_log_view (delete_txn_logs tablet txns mgr) key = txn_log_view mgr key"
  using assms
proof (induction txns arbitrary: mgr)
  case Nil
  show ?case by simp
next
  case (Cons x xs)
  let ?m = "snd (tablet_delete_txn_log tablet x mgr)"
  have coh: "\<forall>l. lookup_txn_log key ?m = Some l \<longrightarrow> files (fs ?m) key = Some (TxnLogFile l)"
    using delete_txn_log_coherent [OF Cons.prems(1), of tablet x] by blast
  have rd: "key \<notin> unreadable (fs ?m)"
    using Cons.prems(2) delete_txn_log_faults [of tablet x mgr] by simp
  from delete_txn_log_view [OF Cons.prems, of tablet x]
  have "txn_log_view ?m key = Inl NotFound \<or> txn_log_view ?m key = txn_log_view mgr key" .
  then show ?case
  proof
    assume "txn_log_view ?m key = Inl NotFound"
    then show ?thesis by (simp add: delete_txn_logs_keeps_not_found)
  next
    assume "txn_log_view ?m key = txn_log_view mgr key"
    then show ?thesis using Cons.IH [OF coh rd] by simp
  qed
qed

lemma delete_txn_log_gone:
  "files (fs (snd (tablet_delete_txn_log tablet txn mgr))) (TxnLogLocation tablet txn) = None
   \<or> TxnLogLocation tablet txn \<in> delete_fails (fs mgr)"
  by (simp add: tablet_delete_txn_log_def delete_txn_log_def delete_file_def erase_metacache_def
      txn_log_location_def Let_def split: option.splits prod.splits)

lemma delete_txn_log_keeps_gone:
  "files (fs mgr) key = None \<Longrightarrow> files (fs (snd (tablet_delete_txn_log tablet txn mgr))) key = None"
  by (simp add: tablet_delete_txn_log_def delete_txn_log_def delete_file_def erase_metacache_def
      txn_log_location_def Let_def split: option.splits prod.splits)

lemma delete_txn_logs_keeps_gone:
  "files (fs mgr) key = None \<Longrightarrow> files (fs (delete_txn_logs tablet txns mgr)) key = None"
  by (induction txns arbitrary: mgr) (simp_all add: delete_txn_log_keeps_gone)

lemma delete_txn_logs_gone:
  "txn \<in> set txns \<Longrightarrow>
   files (fs (delete_txn_logs tablet txns mgr)) (TxnLogLocation tablet txn) = None
   \<or> TxnLogLocation tablet txn \<in> delete_fails (fs mgr)"
proof (induction txns arbitrary: mgr)
  case Nil
  then show ?case by simp
next
  case (Cons x xs)
  let ?m = "snd (tablet_delete_txn_log tablet x mgr)"
  show ?case
  proof (cases "txn \<in> set xs")
    case True
    from Cons.IH [OF True, of ?m] show ?thesis
      using delete_txn_log_faults [of tablet x mgr] by simp
  next
    case False
    then have "txn = x" using Cons.prems by simp
    then show ?thesis
      using delete_txn_log_gone [of tablet x mgr] by (auto simp: delete_txn_logs_keeps_gone)
  qed
qed

text \<open>Deleting logs that are gone, or whose deletion fails, leaves every object as it was.\<close>

lemma delete_txn_log_files:
  "files (fs mgr) (TxnLogLocation tablet txn) = None
   \<or> TxnLogLocation tablet txn \<in> delete_fails (fs mgr) \<Longrightarrow>
   files (fs (snd (tablet_delete_txn_log tablet txn mgr))) = files (fs mgr)"
  by (auto simp: tablet_delete_txn_log_def delete_txn_log_def delete_file_def erase_metacache_def
      txn_log_location_def Let_def split: option.splits prod.splits)

lemma delete_txn_logs_files:
  "\<forall>txn \<in> set txns. files (fs mgr) (TxnLogLocation tablet txn) = None
                     \<or> TxnLogLocation tablet txn \<in> delete_fails (fs mgr) \<Longrightarrow>
   files (fs (delete_txn_logs tablet txns mgr)) = files (fs mgr)"
proof (induction txns arbitrary: mgr)
  case Nil
  show ?case by simp
next
  case (Cons x xs)
  let ?m = "snd (tablet_delete_txn_log tablet x mgr)"
  have f: "files (fs ?m) = files (fs mgr)"
    using Cons.prems by (simp add: delete_txn_log_files)
  have "\<forall>txn \<in> set xs. files (fs ?m) (TxnLogLocation tablet txn) = None
                     \<or> TxnLogLocation tablet txn \<in> delete_fails (fs ?m)"
    using Cons.prems f delete_txn_log_faults [of tablet x mgr] by simp
  from Cons.IH [OF this] f show ?case by simp
qed

text \<open>
  The loop of \<^verbatim>\<open>publish\<close> run again, on a manager in which each log reads as not found
  or as it did in the first run, and the metadata of the new version can be read: it
  stops with \<open>OK\<close> at the first log that is not found, or it builds the same metadata.
\<close>

lemma apply_txn_logs_again:
  assumes "apply_txn_logs tablet new_version txns md mgr = (Some (Inr mdf), mgrE)"
    and "\<forall>txn \<in> set txns. txn_log_view mgr' (TxnLogLocation tablet txn) = Inl NotFound
             \<or> txn_log_view mgr' (TxnLogLocation tablet txn)
                = txn_log_view mgr (TxnLogLocation tablet txn)"
    and "has_value (metadata_view mgr' (TabletMetadataLocation tablet new_version))"
  shows "fst (apply_txn_logs tablet new_version txns md mgr') = Some (Inl OK)
       \<or> fst (apply_txn_logs tablet new_version txns md mgr') = Some (Inr mdf)"
  using assms
proof (induction txns arbitrary: md mgr mgr')
  case Nil
  then show ?case by simp
next
  case (Cons txnid txns)
  obtain r m1 where g: "tablet_get_txn_log tablet txnid mgr = (r, m1)"
    by (cases "tablet_get_txn_log tablet txnid mgr")
  obtain r' m1' where g': "tablet_get_txn_log tablet txnid mgr' = (r', m1')"
    by (cases "tablet_get_txn_log tablet txnid mgr'")
  have ro: "reads_only mgr m1"
    using tablet_get_txn_log_reads_only [of mgr tablet txnid] g by simp
  have ro': "reads_only mgr' m1'"
    using tablet_get_txn_log_reads_only [of mgr' tablet txnid] g' by simp
  have rv: "r = txn_log_view mgr (TxnLogLocation tablet txnid)"
    using tablet_get_txn_log_view [of tablet txnid mgr] g by simp
  have rv': "r' = txn_log_view mgr' (TxnLogLocation tablet txnid)"
    using tablet_get_txn_log_view [of tablet txnid mgr'] g' by simp
  obtain l where r: "r = Inr l"
    using Cons.prems(1) g by (cases r) (auto simp: Let_def split: if_splits prod.splits)
  obtain md2 where ap: "apply_txn_log l md = Some (OK, md2)"
    and rest: "apply_txn_logs tablet new_version txns md2 m1 = (Some (Inr mdf), mgrE)"
    using Cons.prems(1) g r
    by (auto simp: ok_def split: option.splits if_splits)
  from Cons.prems(2) rv rv' r have "r' = Inl NotFound \<or> r' = Inr l" by auto
  then show ?case
  proof
    assume nf: "r' = Inl NotFound"
    obtain r2 m2 where g2: "tablet_get_metadata tablet new_version m1' = (r2, m2)"
      by (cases "tablet_get_metadata tablet new_version m1'")
    have "r2 = metadata_view m1' (TabletMetadataLocation tablet new_version)"
      using tablet_get_metadata_view [of tablet new_version m1'] g2 by simp
    then have "has_value r2"
      using Cons.prems(3) reads_only_metadata_view [OF ro', of tablet new_version] by simp
    then show ?thesis using g' nf g2 by (simp add: is_not_found_def)
  next
    assume same: "r' = Inr l"
    have rel: "\<forall>txn \<in> set txns. txn_log_view m1' (TxnLogLocation tablet txn) = Inl NotFound
             \<or> txn_log_view m1' (TxnLogLocation tablet txn)
                = txn_log_view m1 (TxnLogLocation tablet txn)"
      using Cons.prems(2) reads_only_txn_log_view [OF ro] reads_only_txn_log_view [OF ro'] by simp
    have hv: "has_value (metadata_view m1' (TabletMetadataLocation tablet new_version))"
      using Cons.prems(3) reads_only_metadata_view [OF ro', of tablet new_version] by simp
    from Cons.IH [OF rest rel hv] show ?thesis
      using g' same ap by (simp add: ok_def)
  qed
qed

text \<open>
  After a publish that has written, whose deletes may have failed: the same publish
  returns \<open>OK\<close> again and leaves every object and the metadata of the new version as
  they are, when the two versions differ and the cache agreed with the objects of the
  logs. It stops at the first log that is gone, or it builds the same metadata, writes
  it over the object that holds it and fails to delete the same logs.
\<close>

lemma publish_again_after_write:
  assumes base: "metadata_view mgr (TabletMetadataLocation tablet base_version) = Inr b"
    and loop: "apply_txn_logs tablet new_version txns (b\<lparr>version := new_version\<rparr>)
                 (snd (tablet_get_metadata tablet base_version mgr)) = (Some (Inr mdf), m2)"
    and put: "put_tablet_metadata mdf m2 = (OK, m3)"
    and wf_id: "tablet_id b = tablet"
    and neq: "base_version \<noteq> new_version"
    and readable: "TabletMetadataLocation tablet new_version \<notin> unreadable (fs mgr)"
    and logs: "\<forall>txn \<in> set txns. TxnLogLocation tablet txn \<notin> unreadable (fs mgr)"
    and coh: "\<forall>txn \<in> set txns. \<forall>l.
                lookup_txn_log (TxnLogLocation tablet txn) mgr = Some l \<longrightarrow>
                files (fs mgr) (TxnLogLocation tablet txn) = Some (TxnLogFile l)"
  shows "has_value (metadata_view (delete_txn_logs tablet txns m3)
           (TabletMetadataLocation tablet new_version))
    \<and> (\<exists>mgr2. publish tablet base_version new_version txns (delete_txn_logs tablet txns m3)
                 = (Some OK, mgr2)
          \<and> files (fs mgr2) = files (fs (delete_txn_logs tablet txns m3))
          \<and> metadata_view mgr2 (TabletMetadataLocation tablet new_version)
              = metadata_view (delete_txn_logs tablet txns m3)
                  (TabletMetadataLocation tablet new_version))"
proof -
  let ?Lb = "TabletMetadataLocation tablet base_version"
  let ?Ln = "TabletMetadataLocation tablet new_version"
  let ?m0 = "snd (tablet_get_metadata tablet base_version mgr)"
  let ?md = "b\<lparr>version := new_version\<rparr>"
  let ?mgr1 = "delete_txn_logs tablet txns m3"
  have ids: "tablet_id mdf = tablet" "version mdf = new_version"
    using apply_txn_logs_ids [OF loop] wf_id by simp_all
  have ro0: "reads_only mgr ?m0" by (rule tablet_get_metadata_reads_only)
  have ro02: "reads_only ?m0 m2"
    using apply_txn_logs_reads_only [of ?m0 tablet new_version txns ?md] loop by simp
  have ro2: "reads_only mgr m2" using ro0 ro02 by (rule reads_only_trans)
  have pok: "fst (put_tablet_metadata mdf m2) = OK" using put by simp
  have m3: "snd (put_tablet_metadata mdf m2) = m3" using put by simp
  note stored = put_tablet_metadata_stored [OF pok, unfolded m3 ids]
  note faults3 = put_tablet_metadata_faults [of mdf m2, unfolded m3]
  have hv1: "has_value (metadata_view ?mgr1 ?Ln)"
  proof -
    have "?Ln \<notin> unreadable (fs m2)" using readable ro2 by (simp add: reads_only_def)
    from put_tablet_metadata_readable [OF pok] this ids m3
    have "has_value (metadata_view m3 ?Ln)" by simp
    then show ?thesis by (simp add: delete_txn_logs_metadata_view)
  qed
  have b1: "metadata_view ?mgr1 ?Lb = Inr b"
  proof -
    have "?Lb \<noteq> TabletMetadataLocation (tablet_id mdf) (version mdf)"
      using ids neq by simp
    from put_tablet_metadata_other(4) [OF this, of m2] m3
    have "metadata_view m3 ?Lb = metadata_view m2 ?Lb" by simp
    then show ?thesis
      using reads_only_metadata_view [OF ro2, of tablet base_version] base
      by (simp add: delete_txn_logs_metadata_view)
  qed
  have v3: "\<And>txn. txn_log_view m3 (TxnLogLocation tablet txn)
                   = txn_log_view ?m0 (TxnLogLocation tablet txn)"
    using put_tablet_metadata_other(1) [where md = mdf and mgr = m2 and a = tablet] m3
      reads_only_txn_log_view [OF ro02] by simp
  have rel1: "\<forall>txn \<in> set txns.
      txn_log_view ?mgr1 (TxnLogLocation tablet txn) = Inl NotFound
      \<or> txn_log_view ?mgr1 (TxnLogLocation tablet txn) = txn_log_view ?m0 (TxnLogLocation tablet txn)"
  proof
    fix txn assume t: "txn \<in> set txns"
    have rd2: "TxnLogLocation tablet txn \<notin> unreadable (fs mgr)" using logs t by simp
    have c: "\<forall>l. lookup_txn_log (TxnLogLocation tablet txn) mgr = Some l \<longrightarrow>
                files (fs mgr) (TxnLogLocation tablet txn) = Some (TxnLogFile l)"
      using coh t by simp
    have c3: "\<forall>l. lookup_txn_log (TxnLogLocation tablet txn) m3 = Some l \<longrightarrow>
                files (fs m3) (TxnLogLocation tablet txn) = Some (TxnLogFile l)"
      using reads_only_log_coherent [OF ro2 c rd2]
        put_tablet_metadata_other(2,3) [where md = mdf and mgr = m2 and a = tablet and txn = txn]
        m3 by simp
    have rd3: "TxnLogLocation tablet txn \<notin> unreadable (fs m3)"
      using rd2 faults3 ro2 by (simp add: reads_only_def)
    from delete_txn_logs_view [OF c3 rd3, of tablet txns] v3 [of txn]
    show "txn_log_view ?mgr1 (TxnLogLocation tablet txn) = Inl NotFound
      \<or> txn_log_view ?mgr1 (TxnLogLocation tablet txn) = txn_log_view ?m0 (TxnLogLocation tablet txn)"
      by simp
  qed
  obtain n0 where g: "tablet_get_metadata tablet base_version ?mgr1 = (Inr b, n0)"
    using b1 tablet_get_metadata_view [of tablet base_version ?mgr1]
    by (cases "tablet_get_metadata tablet base_version ?mgr1") simp
  have ron0: "reads_only ?mgr1 n0"
    using tablet_get_metadata_reads_only [of ?mgr1 tablet base_version] g by simp
  obtain flow n2 where a: "apply_txn_logs tablet new_version txns ?md n0 = (flow, n2)"
    by (cases "apply_txn_logs tablet new_version txns ?md n0")
  have ron02: "reads_only n0 n2"
    using apply_txn_logs_reads_only [of n0 tablet new_version txns ?md] a by simp
  have ron2: "reads_only ?mgr1 n2" using ron0 ron02 by (rule reads_only_trans)
  have rel: "\<forall>txn \<in> set txns.
      txn_log_view n0 (TxnLogLocation tablet txn) = Inl NotFound
      \<or> txn_log_view n0 (TxnLogLocation tablet txn) = txn_log_view ?m0 (TxnLogLocation tablet txn)"
    using rel1 reads_only_txn_log_view [OF ron0] by simp
  have hvn: "has_value (metadata_view n0 ?Ln)"
    using hv1 reads_only_metadata_view [OF ron0, of tablet new_version] by simp
  from apply_txn_logs_again [OF loop rel hvn] a
  have "flow = Some (Inl OK) \<or> flow = Some (Inr mdf)" by simp
  then have "\<exists>mgr2. publish tablet base_version new_version txns ?mgr1 = (Some OK, mgr2)
          \<and> files (fs mgr2) = files (fs ?mgr1)
          \<and> metadata_view mgr2 ?Ln = metadata_view ?mgr1 ?Ln"
  proof
    assume "flow = Some (Inl OK)"
    then have "publish tablet base_version new_version txns ?mgr1 = (Some OK, n2)"
      using g a by (simp add: publish_def)
    moreover have "files (fs n2) = files (fs ?mgr1)" using ron2 by (simp add: reads_only_def)
    moreover have "metadata_view n2 ?Ln = metadata_view ?mgr1 ?Ln"
      using ron2 by (rule reads_only_metadata_view)
    ultimately show ?thesis by blast
  next
    assume fl: "flow = Some (Inr mdf)"
    let ?Lp = "TabletMetadataLocation (tablet_id mdf) (version mdf)"
    have Lp: "?Lp = ?Ln" using ids by simp
    have same_faults: "open_fails (fs n2) = open_fails (fs m2)"
      "append_fails (fs n2) = append_fails (fs m2)"
      "close_fails (fs n2) = close_fails (fs m2)"
      using ron2 stored by (simp_all add: reads_only_def delete_txn_logs_frame)
    have pok2: "fst (put_tablet_metadata mdf n2) = OK"
      using pok same_faults
      by (simp add: put_tablet_metadata_status Let_def split: if_splits)
    have f2: "files (fs n2) ?Lp = Some (MetadataFile mdf)"
      using stored ron2 Lp by (simp add: reads_only_def delete_txn_logs_frame)
    have e2: "?Lp \<notin> refused (metacache n2) \<longrightarrow>
              entries (metacache n2) ?Lp = Some (MetadataValue mdf)"
    proof
      assume "?Lp \<notin> refused (metacache n2)"
      then have "?Ln \<notin> refused (metacache m2)"
        using ron2 stored Lp by (simp add: reads_only_def delete_txn_logs_frame)
      then have "entries (metacache ?mgr1) ?Ln = Some (MetadataValue mdf)"
        using stored by (simp add: delete_txn_logs_frame)
      then show "entries (metacache n2) ?Lp = Some (MetadataValue mdf)"
        using ron2 Lp by (simp add: reads_only_def)
    qed
    obtain n3 where p3: "put_tablet_metadata mdf n2 = (OK, n3)"
      using pok2 by (cases "put_tablet_metadata mdf n2") simp
    from put_tablet_metadata_again [OF pok2 f2 e2] p3
    have again: "files (fs n3) = files (fs n2)"
      "\<And>key. metadata_view n3 key = metadata_view n2 key"
      by simp_all
    have df: "delete_fails (fs n3) = delete_fails (fs m3)"
      using put_tablet_metadata_faults [of mdf n2] p3 ron2
      by (simp add: reads_only_def delete_txn_logs_frame)
    have "\<forall>txn \<in> set txns. files (fs n3) (TxnLogLocation tablet txn) = None
                     \<or> TxnLogLocation tablet txn \<in> delete_fails (fs n3)"
    proof
      fix txn assume "txn \<in> set txns"
      from delete_txn_logs_gone [OF this, of tablet m3]
      show "files (fs n3) (TxnLogLocation tablet txn) = None
                     \<or> TxnLogLocation tablet txn \<in> delete_fails (fs n3)"
        using again(1) ron2 df by (simp add: reads_only_def)
    qed
    then have fin: "files (fs (delete_txn_logs tablet txns n3)) = files (fs n3)"
      by (rule delete_txn_logs_files)
    have "publish tablet base_version new_version txns ?mgr1
            = (Some OK, delete_txn_logs tablet txns n3)"
      using g a fl p3 by (simp add: publish_def tablet_put_metadata_def ok_def)
    moreover have "files (fs (delete_txn_logs tablet txns n3)) = files (fs ?mgr1)"
      using fin again(1) ron2 by (simp add: reads_only_def)
    moreover have "metadata_view (delete_txn_logs tablet txns n3) ?Ln = metadata_view ?mgr1 ?Ln"
      using again(2) reads_only_metadata_view [OF ron2, of tablet new_version]
      by (simp add: delete_txn_logs_metadata_view)
    ultimately show ?thesis by blast
  qed
  then show ?thesis using hv1 by blast
qed

text \<open>
  Claim C1. Publish is idempotent. Let \<^verbatim>\<open>publish\<close> have returned \<open>OK\<close>, in a
  manager whose base metadata, if it can be read, carries the id of the tablet, and in
  which no read of the new metadata and no read or delete of a log of the list fails.
  Then the metadata of the new version can be read afterwards; the publish has either
  only read or left every log of the list not found; and \<^verbatim>\<open>publish\<close> with the same
  arguments returns \<open>OK\<close> again, every stored object is unchanged, the metadata read at
  the new version is the same, and with a transaction in the list nothing is written at
  all. When deletes of logs may fail, the second publish still returns \<open>OK\<close> and leaves
  every stored object and the metadata read at the new version as they are, provided
  the two versions differ and a cached log of the list is the log that its object holds.
  In particular, in any state: when the base metadata is not found and the new version
  can be read, and when a log is not found (the logs before it having been loaded and
  applied) and the new version can be read, \<^verbatim>\<open>publish\<close> returns \<open>OK\<close>, asks no write
  or delete of the file system and leaves every object as it was.
\<close>

theorem publish_idempotent:
  "(publish tablet base_version new_version txns mgr = (Some OK, mgr1)
      \<and> tablet_metadata_location tablet new_version \<notin> unreadable (fs mgr)
      \<and> (\<forall>txn \<in> set txns. txn_log_location tablet txn \<notin> unreadable (fs mgr)
                            \<and> txn_log_location tablet txn \<notin> delete_fails (fs mgr))
      \<and> (\<forall>b. fst (tablet_get_metadata tablet base_version mgr) = Inr b \<longrightarrow> tablet_id b = tablet)
    \<longrightarrow> has_value (fst (tablet_get_metadata tablet new_version mgr1))
        \<and> (reads_only mgr mgr1
           \<or> (\<forall>txn \<in> set txns. fst (tablet_get_txn_log tablet txn mgr1) = Inl NotFound))
        \<and> (\<exists>mgr2. publish tablet base_version new_version txns mgr1 = (Some OK, mgr2)
             \<and> files (fs mgr2) = files (fs mgr1)
             \<and> fst (tablet_get_metadata tablet new_version mgr2)
                 = fst (tablet_get_metadata tablet new_version mgr1)
             \<and> (txns \<noteq> [] \<longrightarrow> writes (fs_log (fs mgr2)) = writes (fs_log (fs mgr1)))))
   \<and> (publish tablet base_version new_version txns mgr = (Some OK, mgr1)
      \<and> base_version \<noteq> new_version
      \<and> tablet_metadata_location tablet new_version \<notin> unreadable (fs mgr)
      \<and> (\<forall>txn \<in> set txns. txn_log_location tablet txn \<notin> unreadable (fs mgr)
            \<and> (\<forall>l. lookup_txn_log (txn_log_location tablet txn) mgr = Some l \<longrightarrow>
                     files (fs mgr) (txn_log_location tablet txn) = Some (TxnLogFile l)))
      \<and> (\<forall>b. fst (tablet_get_metadata tablet base_version mgr) = Inr b \<longrightarrow> tablet_id b = tablet)
    \<longrightarrow> has_value (fst (tablet_get_metadata tablet new_version mgr1))
        \<and> (\<exists>mgr2. publish tablet base_version new_version txns mgr1 = (Some OK, mgr2)
             \<and> files (fs mgr2) = files (fs mgr1)
             \<and> fst (tablet_get_metadata tablet new_version mgr2)
                 = fst (tablet_get_metadata tablet new_version mgr1)))
   \<and> (fst (tablet_get_metadata tablet base_version mgr) = Inl NotFound
      \<and> has_value (fst (tablet_get_metadata tablet new_version mgr))
    \<longrightarrow> (\<exists>mgr2. publish tablet base_version new_version txns mgr = (Some OK, mgr2)
           \<and> files (fs mgr2) = files (fs mgr)
           \<and> writes (fs_log (fs mgr2)) = writes (fs_log (fs mgr))))
   \<and> (fst (tablet_get_metadata tablet base_version mgr) = Inr b
      \<and> apply_txn_logs tablet new_version pre (b\<lparr>version := new_version\<rparr>)
           (snd (tablet_get_metadata tablet base_version mgr)) = (Some (Inr md1), m1)
      \<and> fst (tablet_get_txn_log tablet txn mgr) = Inl NotFound
      \<and> has_value (fst (tablet_get_metadata tablet new_version mgr))
    \<longrightarrow> (\<exists>mgr2. publish tablet base_version new_version (pre @ txn # post) mgr = (Some OK, mgr2)
           \<and> files (fs mgr2) = files (fs mgr)
           \<and> writes (fs_log (fs mgr2)) = writes (fs_log (fs mgr))))"
proof (intro conjI)
  show "fst (tablet_get_metadata tablet base_version mgr) = Inl NotFound
      \<and> has_value (fst (tablet_get_metadata tablet new_version mgr))
    \<longrightarrow> (\<exists>mgr2. publish tablet base_version new_version txns mgr = (Some OK, mgr2)
           \<and> files (fs mgr2) = files (fs mgr)
           \<and> writes (fs_log (fs mgr2)) = writes (fs_log (fs mgr)))"
  proof
    assume "fst (tablet_get_metadata tablet base_version mgr) = Inl NotFound
        \<and> has_value (fst (tablet_get_metadata tablet new_version mgr))"
    then obtain mgr2 where "publish tablet base_version new_version txns mgr = (Some OK, mgr2)"
      "reads_only mgr mgr2"
      using publish_base_not_found [of tablet base_version mgr new_version txns] by blast
    then show "\<exists>mgr2. publish tablet base_version new_version txns mgr = (Some OK, mgr2)
             \<and> files (fs mgr2) = files (fs mgr)
             \<and> writes (fs_log (fs mgr2)) = writes (fs_log (fs mgr))"
      by (auto simp: reads_only_def)
  qed
  show "fst (tablet_get_metadata tablet base_version mgr) = Inr b
      \<and> apply_txn_logs tablet new_version pre (b\<lparr>version := new_version\<rparr>)
           (snd (tablet_get_metadata tablet base_version mgr)) = (Some (Inr md1), m1)
      \<and> fst (tablet_get_txn_log tablet txn mgr) = Inl NotFound
      \<and> has_value (fst (tablet_get_metadata tablet new_version mgr))
    \<longrightarrow> (\<exists>mgr2. publish tablet base_version new_version (pre @ txn # post) mgr = (Some OK, mgr2)
           \<and> files (fs mgr2) = files (fs mgr)
           \<and> writes (fs_log (fs mgr2)) = writes (fs_log (fs mgr)))"
  proof
    assume "fst (tablet_get_metadata tablet base_version mgr) = Inr b
        \<and> apply_txn_logs tablet new_version pre (b\<lparr>version := new_version\<rparr>)
             (snd (tablet_get_metadata tablet base_version mgr)) = (Some (Inr md1), m1)
        \<and> fst (tablet_get_txn_log tablet txn mgr) = Inl NotFound
        \<and> has_value (fst (tablet_get_metadata tablet new_version mgr))"
    then obtain mgr2 where
      "publish tablet base_version new_version (pre @ txn # post) mgr = (Some OK, mgr2)"
      "reads_only mgr mgr2"
      using publish_log_not_found [of tablet base_version mgr b new_version pre md1 m1 txn post]
      by blast
    then show "\<exists>mgr2. publish tablet base_version new_version (pre @ txn # post) mgr = (Some OK, mgr2)
             \<and> files (fs mgr2) = files (fs mgr)
             \<and> writes (fs_log (fs mgr2)) = writes (fs_log (fs mgr))"
      by (auto simp: reads_only_def)
  qed
  show "publish tablet base_version new_version txns mgr = (Some OK, mgr1)
      \<and> tablet_metadata_location tablet new_version \<notin> unreadable (fs mgr)
      \<and> (\<forall>txn \<in> set txns. txn_log_location tablet txn \<notin> unreadable (fs mgr)
                            \<and> txn_log_location tablet txn \<notin> delete_fails (fs mgr))
      \<and> (\<forall>b. fst (tablet_get_metadata tablet base_version mgr) = Inr b \<longrightarrow> tablet_id b = tablet)
    \<longrightarrow> has_value (fst (tablet_get_metadata tablet new_version mgr1))
        \<and> (reads_only mgr mgr1
           \<or> (\<forall>txn \<in> set txns. fst (tablet_get_txn_log tablet txn mgr1) = Inl NotFound))
        \<and> (\<exists>mgr2. publish tablet base_version new_version txns mgr1 = (Some OK, mgr2)
             \<and> files (fs mgr2) = files (fs mgr1)
             \<and> fst (tablet_get_metadata tablet new_version mgr2)
                 = fst (tablet_get_metadata tablet new_version mgr1)
             \<and> (txns \<noteq> [] \<longrightarrow> writes (fs_log (fs mgr2)) = writes (fs_log (fs mgr1))))"
  proof
    assume h: "publish tablet base_version new_version txns mgr = (Some OK, mgr1)
      \<and> tablet_metadata_location tablet new_version \<notin> unreadable (fs mgr)
      \<and> (\<forall>txn \<in> set txns. txn_log_location tablet txn \<notin> unreadable (fs mgr)
                            \<and> txn_log_location tablet txn \<notin> delete_fails (fs mgr))
      \<and> (\<forall>b. fst (tablet_get_metadata tablet base_version mgr) = Inr b \<longrightarrow> tablet_id b = tablet)"
    then have first: "publish tablet base_version new_version txns mgr = (Some OK, mgr1)"
      and readable: "TabletMetadataLocation tablet new_version \<notin> unreadable (fs mgr)"
      and logs: "\<forall>txn \<in> set txns. TxnLogLocation tablet txn \<notin> unreadable (fs mgr)
                               \<and> TxnLogLocation tablet txn \<notin> delete_fails (fs mgr)"
      and wf_id: "\<forall>b. metadata_view mgr (TabletMetadataLocation tablet base_version) = Inr b
                      \<longrightarrow> tablet_id b = tablet"
      by (simp_all add: tablet_metadata_location_def txn_log_location_def tablet_get_metadata_view)
    let ?Ln = "TabletMetadataLocation tablet new_version"
    let ?goal = "has_value (fst (tablet_get_metadata tablet new_version mgr1))
        \<and> (reads_only mgr mgr1
           \<or> (\<forall>txn \<in> set txns. fst (tablet_get_txn_log tablet txn mgr1) = Inl NotFound))
        \<and> (\<exists>mgr2. publish tablet base_version new_version txns mgr1 = (Some OK, mgr2)
             \<and> files (fs mgr2) = files (fs mgr1)
             \<and> fst (tablet_get_metadata tablet new_version mgr2)
                 = fst (tablet_get_metadata tablet new_version mgr1)
             \<and> (txns \<noteq> [] \<longrightarrow> writes (fs_log (fs mgr2)) = writes (fs_log (fs mgr1))))"
    from publish_OK_cases [OF first]
    consider (reads) "reads_only mgr mgr1"
        "has_value (metadata_view mgr ?Ln)"
        "metadata_view mgr (TabletMetadataLocation tablet base_version) = Inl NotFound
         \<or> (\<exists>b. metadata_view mgr (TabletMetadataLocation tablet base_version) = Inr b
              \<and> fst (apply_txn_logs tablet new_version txns (b\<lparr>version := new_version\<rparr>)
                      (snd (tablet_get_metadata tablet base_version mgr))) = Some (Inl OK))"
      | (written) b mdf m2 m3 where
        "metadata_view mgr (TabletMetadataLocation tablet base_version) = Inr b"
        "apply_txn_logs tablet new_version txns (b\<lparr>version := new_version\<rparr>)
           (snd (tablet_get_metadata tablet base_version mgr)) = (Some (Inr mdf), m2)"
        "put_tablet_metadata mdf m2 = (OK, m3)"
        "mgr1 = delete_txn_logs tablet txns m3"
      by blast
    then show ?goal
    proof cases
      case reads
      from publish_again_after_reads [OF reads]
      obtain mgr2 where p: "publish tablet base_version new_version txns mgr1 = (Some OK, mgr2)"
        and ro: "reads_only mgr1 mgr2"
        by blast
      have "has_value (fst (tablet_get_metadata tablet new_version mgr1))"
        using reads(2) reads_only_metadata_view [OF reads(1), of tablet new_version]
        by (simp add: tablet_get_metadata_view)
      moreover have "fst (tablet_get_metadata tablet new_version mgr2)
                 = fst (tablet_get_metadata tablet new_version mgr1)"
        using reads_only_metadata_view [OF ro, of tablet new_version]
        by (simp add: tablet_get_metadata_view)
      moreover have "files (fs mgr2) = files (fs mgr1)"
        "writes (fs_log (fs mgr2)) = writes (fs_log (fs mgr1))"
        using ro by (simp_all add: reads_only_def)
      ultimately show ?thesis using p reads(1) by blast
    next
      case written
      have wf: "tablet_id b = tablet" using wf_id written(1) by simp
      note w = publish_written [OF written(1,2,3) wf readable logs]
      have hv: "has_value (fst (tablet_get_metadata tablet new_version mgr1))"
        using w(1) written(4) by (simp add: tablet_get_metadata_view)
      then obtain new_md where newv: "fst (tablet_get_metadata tablet new_version mgr1) = Inr new_md"
        by (cases "fst (tablet_get_metadata tablet new_version mgr1)") (simp_all add: has_value_def)
      have deleted: "\<forall>txn \<in> set txns. fst (tablet_get_txn_log tablet txn mgr1) = Inl NotFound"
        using w(2) written(4) by (simp add: tablet_get_txn_log_view)
      from publish_again_after_deletion [OF first newv deleted]
      obtain mgr2 where "publish tablet base_version new_version txns mgr1 = (Some OK, mgr2)"
        "files (fs mgr2) = files (fs mgr1)"
        "fst (tablet_get_metadata tablet new_version mgr2) = Inr new_md"
        "txns \<noteq> [] \<longrightarrow> writes (fs_log (fs mgr2)) = writes (fs_log (fs mgr1))"
        by blast
      then show ?thesis using hv newv deleted by auto
    qed
  qed
  show "publish tablet base_version new_version txns mgr = (Some OK, mgr1)
      \<and> base_version \<noteq> new_version
      \<and> tablet_metadata_location tablet new_version \<notin> unreadable (fs mgr)
      \<and> (\<forall>txn \<in> set txns. txn_log_location tablet txn \<notin> unreadable (fs mgr)
            \<and> (\<forall>l. lookup_txn_log (txn_log_location tablet txn) mgr = Some l \<longrightarrow>
                     files (fs mgr) (txn_log_location tablet txn) = Some (TxnLogFile l)))
      \<and> (\<forall>b. fst (tablet_get_metadata tablet base_version mgr) = Inr b \<longrightarrow> tablet_id b = tablet)
    \<longrightarrow> has_value (fst (tablet_get_metadata tablet new_version mgr1))
        \<and> (\<exists>mgr2. publish tablet base_version new_version txns mgr1 = (Some OK, mgr2)
             \<and> files (fs mgr2) = files (fs mgr1)
             \<and> fst (tablet_get_metadata tablet new_version mgr2)
                 = fst (tablet_get_metadata tablet new_version mgr1))"
  proof
    assume h: "publish tablet base_version new_version txns mgr = (Some OK, mgr1)
      \<and> base_version \<noteq> new_version
      \<and> tablet_metadata_location tablet new_version \<notin> unreadable (fs mgr)
      \<and> (\<forall>txn \<in> set txns. txn_log_location tablet txn \<notin> unreadable (fs mgr)
            \<and> (\<forall>l. lookup_txn_log (txn_log_location tablet txn) mgr = Some l \<longrightarrow>
                     files (fs mgr) (txn_log_location tablet txn) = Some (TxnLogFile l)))
      \<and> (\<forall>b. fst (tablet_get_metadata tablet base_version mgr) = Inr b \<longrightarrow> tablet_id b = tablet)"
    then have first: "publish tablet base_version new_version txns mgr = (Some OK, mgr1)"
      and neq: "base_version \<noteq> new_version"
      and readable: "TabletMetadataLocation tablet new_version \<notin> unreadable (fs mgr)"
      and logs: "\<forall>txn \<in> set txns. TxnLogLocation tablet txn \<notin> unreadable (fs mgr)"
      and coh: "\<forall>txn \<in> set txns. \<forall>l.
                lookup_txn_log (TxnLogLocation tablet txn) mgr = Some l \<longrightarrow>
                files (fs mgr) (TxnLogLocation tablet txn) = Some (TxnLogFile l)"
      and wf_id: "\<forall>b. metadata_view mgr (TabletMetadataLocation tablet base_version) = Inr b
                      \<longrightarrow> tablet_id b = tablet"
      by (simp_all add: tablet_metadata_location_def txn_log_location_def tablet_get_metadata_view)
    let ?Ln = "TabletMetadataLocation tablet new_version"
    let ?goal = "has_value (fst (tablet_get_metadata tablet new_version mgr1))
        \<and> (\<exists>mgr2. publish tablet base_version new_version txns mgr1 = (Some OK, mgr2)
             \<and> files (fs mgr2) = files (fs mgr1)
             \<and> fst (tablet_get_metadata tablet new_version mgr2)
                 = fst (tablet_get_metadata tablet new_version mgr1))"
    from publish_OK_cases [OF first]
    consider (reads) "reads_only mgr mgr1"
        "has_value (metadata_view mgr ?Ln)"
        "metadata_view mgr (TabletMetadataLocation tablet base_version) = Inl NotFound
         \<or> (\<exists>b. metadata_view mgr (TabletMetadataLocation tablet base_version) = Inr b
              \<and> fst (apply_txn_logs tablet new_version txns (b\<lparr>version := new_version\<rparr>)
                      (snd (tablet_get_metadata tablet base_version mgr))) = Some (Inl OK))"
      | (written) b mdf m2 m3 where
        "metadata_view mgr (TabletMetadataLocation tablet base_version) = Inr b"
        "apply_txn_logs tablet new_version txns (b\<lparr>version := new_version\<rparr>)
           (snd (tablet_get_metadata tablet base_version mgr)) = (Some (Inr mdf), m2)"
        "put_tablet_metadata mdf m2 = (OK, m3)"
        "mgr1 = delete_txn_logs tablet txns m3"
      by blast
    then show ?goal
    proof cases
      case reads
      from publish_again_after_reads [OF reads]
      obtain mgr2 where p: "publish tablet base_version new_version txns mgr1 = (Some OK, mgr2)"
        and ro: "reads_only mgr1 mgr2"
        by blast
      have "has_value (fst (tablet_get_metadata tablet new_version mgr1))"
        using reads(2) reads_only_metadata_view [OF reads(1), of tablet new_version]
        by (simp add: tablet_get_metadata_view)
      moreover have "fst (tablet_get_metadata tablet new_version mgr2)
                 = fst (tablet_get_metadata tablet new_version mgr1)"
        using reads_only_metadata_view [OF ro, of tablet new_version]
        by (simp add: tablet_get_metadata_view)
      moreover have "files (fs mgr2) = files (fs mgr1)"
        using ro by (simp add: reads_only_def)
      ultimately show ?thesis using p by blast
    next
      case written
      have wf: "tablet_id b = tablet" using wf_id written(1) by simp
      from publish_again_after_write [OF written(1,2,3) wf neq readable logs coh]
      show ?thesis using written(4) by (simp add: tablet_get_metadata_view)
    qed
  qed
qed

lemmas publish_eval =
  publish_def tablet_get_metadata_def tablet_get_txn_log_def tablet_put_metadata_def
  tablet_delete_txn_log_def get_tablet_metadata_def get_tablet_metadata_path_def
  load_tablet_metadata_def get_txn_log_def get_txn_log_path_def load_txn_log_def
  read_file_def fill_metacache_def lookup_tablet_metadata_def lookup_txn_log_def
  apply_txn_log_def apply_write_log_def segments_size_def put_tablet_metadata_def
  new_writable_file_def wf_append_def wf_close_def delete_txn_log_def delete_file_def
  erase_metacache_def tablet_metadata_location_def txn_log_location_def has_value_def
  ok_def is_not_found_def Let_def

theorem publish_idempotent_witness:
  "fst (publish 7 5 6 [100, 101]
     \<lparr>fs = \<lparr>files =
              [TabletMetadataLocation 7 5 \<mapsto>
                 MetadataFile \<lparr>tablet_id = 7, version = 5, next_rowset_id = 10, rowsets = []\<rparr>,
               TxnLogLocation 7 100 \<mapsto>
                 TxnLogFile \<lparr>log_tablet_id = Some 7, log_txn_id = Some 100,
                   op_write = Some \<lparr>rowset = Some \<lparr>rowset_id = 0, segments = [''a'', ''b''],
                                                    num_rows = 3\<rparr>\<rparr>,
                   op_compaction = None, op_schema_change = None\<rparr>,
               TxnLogLocation 7 101 \<mapsto>
                 TxnLogFile \<lparr>log_tablet_id = Some 7, log_txn_id = Some 101,
                   op_write = Some \<lparr>rowset = Some \<lparr>rowset_id = 0, segments = [''c'', ''d''],
                                                    num_rows = 3\<rparr>\<rparr>,
                   op_compaction = None, op_schema_change = None\<rparr>],
            unreadable = {}, open_fails = {}, append_fails = {}, close_fails = {},
            delete_fails = {}, fs_log = []\<rparr>,
      metacache = \<lparr>entries = Map.empty, refused = {}\<rparr>, fill_cache_default = True\<rparr>) = Some OK
   \<and> fst (publish 7 5 6 [100, 101] (snd (publish 7 5 6 [100, 101]
     \<lparr>fs = \<lparr>files =
              [TabletMetadataLocation 7 5 \<mapsto>
                 MetadataFile \<lparr>tablet_id = 7, version = 5, next_rowset_id = 10, rowsets = []\<rparr>,
               TxnLogLocation 7 100 \<mapsto>
                 TxnLogFile \<lparr>log_tablet_id = Some 7, log_txn_id = Some 100,
                   op_write = Some \<lparr>rowset = Some \<lparr>rowset_id = 0, segments = [''a'', ''b''],
                                                    num_rows = 3\<rparr>\<rparr>,
                   op_compaction = None, op_schema_change = None\<rparr>,
               TxnLogLocation 7 101 \<mapsto>
                 TxnLogFile \<lparr>log_tablet_id = Some 7, log_txn_id = Some 101,
                   op_write = Some \<lparr>rowset = Some \<lparr>rowset_id = 0, segments = [''c'', ''d''],
                                                    num_rows = 3\<rparr>\<rparr>,
                   op_compaction = None, op_schema_change = None\<rparr>],
            unreadable = {}, open_fails = {}, append_fails = {}, close_fails = {},
            delete_fails = {}, fs_log = []\<rparr>,
      metacache = \<lparr>entries = Map.empty, refused = {}\<rparr>, fill_cache_default = True\<rparr>))) = Some OK
   \<and> fst (publish 7 5 6 [100, 101]
     \<lparr>fs = \<lparr>files =
              [TabletMetadataLocation 7 5 \<mapsto>
                 MetadataFile \<lparr>tablet_id = 7, version = 5, next_rowset_id = 10, rowsets = []\<rparr>,
               TxnLogLocation 7 100 \<mapsto>
                 TxnLogFile \<lparr>log_tablet_id = Some 7, log_txn_id = Some 100,
                   op_write = Some \<lparr>rowset = Some \<lparr>rowset_id = 0, segments = [''a'', ''b''],
                                                    num_rows = 3\<rparr>\<rparr>,
                   op_compaction = None, op_schema_change = None\<rparr>,
               TxnLogLocation 7 101 \<mapsto>
                 TxnLogFile \<lparr>log_tablet_id = Some 7, log_txn_id = Some 101,
                   op_write = Some \<lparr>rowset = Some \<lparr>rowset_id = 0, segments = [''c'', ''d''],
                                                    num_rows = 3\<rparr>\<rparr>,
                   op_compaction = None, op_schema_change = None\<rparr>],
            unreadable = {}, open_fails = {}, append_fails = {}, close_fails = {},
            delete_fails = {TxnLogLocation 7 101}, fs_log = []\<rparr>,
      metacache = \<lparr>entries = Map.empty, refused = {}\<rparr>, fill_cache_default = True\<rparr>) = Some OK
   \<and> fst (publish 7 5 6 [100, 101] (snd (publish 7 5 6 [100, 101]
     \<lparr>fs = \<lparr>files =
              [TabletMetadataLocation 7 5 \<mapsto>
                 MetadataFile \<lparr>tablet_id = 7, version = 5, next_rowset_id = 10, rowsets = []\<rparr>,
               TxnLogLocation 7 100 \<mapsto>
                 TxnLogFile \<lparr>log_tablet_id = Some 7, log_txn_id = Some 100,
                   op_write = Some \<lparr>rowset = Some \<lparr>rowset_id = 0, segments = [''a'', ''b''],
                                                    num_rows = 3\<rparr>\<rparr>,
                   op_compaction = None, op_schema_change = None\<rparr>,
               TxnLogLocation 7 101 \<mapsto>
                 TxnLogFile \<lparr>log_tablet_id = Some 7, log_txn_id = Some 101,
                   op_write = Some \<lparr>rowset = Some \<lparr>rowset_id = 0, segments = [''c'', ''d''],
                                                    num_rows = 3\<rparr>\<rparr>,
                   op_compaction = None, op_schema_change = None\<rparr>],
            unreadable = {}, open_fails = {}, append_fails = {}, close_fails = {},
            delete_fails = {TxnLogLocation 7 101}, fs_log = []\<rparr>,
      metacache = \<lparr>entries = Map.empty, refused = {}\<rparr>, fill_cache_default = True\<rparr>))) = Some OK"
proof -
  let ?mgr = "\<lparr>fs = \<lparr>files =
              [TabletMetadataLocation 7 5 \<mapsto>
                 MetadataFile \<lparr>tablet_id = 7, version = 5, next_rowset_id = 10, rowsets = []\<rparr>,
               TxnLogLocation 7 100 \<mapsto>
                 TxnLogFile \<lparr>log_tablet_id = Some 7, log_txn_id = Some 100,
                   op_write = Some \<lparr>rowset = Some \<lparr>rowset_id = 0, segments = [''a'', ''b''],
                                                    num_rows = 3\<rparr>\<rparr>,
                   op_compaction = None, op_schema_change = None\<rparr>,
               TxnLogLocation 7 101 \<mapsto>
                 TxnLogFile \<lparr>log_tablet_id = Some 7, log_txn_id = Some 101,
                   op_write = Some \<lparr>rowset = Some \<lparr>rowset_id = 0, segments = [''c'', ''d''],
                                                    num_rows = 3\<rparr>\<rparr>,
                   op_compaction = None, op_schema_change = None\<rparr>],
            unreadable = {}, open_fails = {}, append_fails = {}, close_fails = {},
            delete_fails = {}, fs_log = []\<rparr>,
      metacache = \<lparr>entries = Map.empty, refused = {}\<rparr>, fill_cache_default = True\<rparr>"
  let ?mgrd = "\<lparr>fs = \<lparr>files =
              [TabletMetadataLocation 7 5 \<mapsto>
                 MetadataFile \<lparr>tablet_id = 7, version = 5, next_rowset_id = 10, rowsets = []\<rparr>,
               TxnLogLocation 7 100 \<mapsto>
                 TxnLogFile \<lparr>log_tablet_id = Some 7, log_txn_id = Some 100,
                   op_write = Some \<lparr>rowset = Some \<lparr>rowset_id = 0, segments = [''a'', ''b''],
                                                    num_rows = 3\<rparr>\<rparr>,
                   op_compaction = None, op_schema_change = None\<rparr>,
               TxnLogLocation 7 101 \<mapsto>
                 TxnLogFile \<lparr>log_tablet_id = Some 7, log_txn_id = Some 101,
                   op_write = Some \<lparr>rowset = Some \<lparr>rowset_id = 0, segments = [''c'', ''d''],
                                                    num_rows = 3\<rparr>\<rparr>,
                   op_compaction = None, op_schema_change = None\<rparr>],
            unreadable = {}, open_fails = {}, append_fails = {}, close_fails = {},
            delete_fails = {TxnLogLocation 7 101}, fs_log = []\<rparr>,
      metacache = \<lparr>entries = Map.empty, refused = {}\<rparr>, fill_cache_default = True\<rparr>"
  let ?mgr1 = "snd (publish 7 5 6 [100, 101] ?mgr)"
  let ?mgrd1 = "snd (publish 7 5 6 [100, 101] ?mgrd)"
  have ok1: "fst (publish 7 5 6 [100, 101] ?mgr) = Some OK"
    by (simp add: publish_eval)
  then have first: "publish 7 5 6 [100, 101] ?mgr = (Some OK, ?mgr1)"
    by (simp add: prod_eq_iff)
  have readable: "tablet_metadata_location 7 6 \<notin> unreadable (fs ?mgr)"
    by simp
  have logs: "\<forall>txn \<in> set [100, 101]. txn_log_location 7 txn \<notin> unreadable (fs ?mgr)
                            \<and> txn_log_location 7 txn \<notin> delete_fails (fs ?mgr)"
    by simp
  have wf_id: "\<forall>b. fst (tablet_get_metadata 7 5 ?mgr) = Inr b \<longrightarrow> tablet_id b = 7"
    by (auto simp: publish_eval)
  from publish_idempotent [of 7 5 6 "[100, 101]" ?mgr ?mgr1] first readable logs wf_id
  obtain mgr2 where "publish 7 5 6 [100, 101] ?mgr1 = (Some OK, mgr2)" by blast
  then have ok2: "fst (publish 7 5 6 [100, 101] ?mgr1) = Some OK" by simp
  have okd1: "fst (publish 7 5 6 [100, 101] ?mgrd) = Some OK"
    by (simp add: publish_eval)
  then have firstd: "publish 7 5 6 [100, 101] ?mgrd = (Some OK, ?mgrd1)"
    by (simp add: prod_eq_iff)
  have neq: "(5::int) \<noteq> 6" by simp
  have readabled: "tablet_metadata_location 7 6 \<notin> unreadable (fs ?mgrd)"
    by simp
  have logsd: "\<forall>txn \<in> set [100, 101]. txn_log_location 7 txn \<notin> unreadable (fs ?mgrd)
      \<and> (\<forall>l. lookup_txn_log (txn_log_location 7 txn) ?mgrd = Some l \<longrightarrow>
             files (fs ?mgrd) (txn_log_location 7 txn) = Some (TxnLogFile l))"
    by (simp add: lookup_txn_log_def)
  have wf_idd: "\<forall>b. fst (tablet_get_metadata 7 5 ?mgrd) = Inr b \<longrightarrow> tablet_id b = 7"
    by (auto simp: publish_eval)
  from publish_idempotent [of 7 5 6 "[100, 101]" ?mgrd ?mgrd1] firstd neq readabled logsd wf_idd
  obtain mgr3 where "publish 7 5 6 [100, 101] ?mgrd1 = (Some OK, mgr3)" by blast
  then have okd2: "fst (publish 7 5 6 [100, 101] ?mgrd1) = Some OK" by simp
  from ok1 ok2 okd1 okd2 show ?thesis by simp
qed

end
